theory Spec2Isabelle
  imports Complex_Main "HOL-Library.Log_Nat" "HOL-Library.Multiset" "HOL-Library.Word"
begin

section \<open>GB\_AxB\_saxpy3: scheduling of the sparse matrix product C = A*B\<close>

text \<open>
  The development embeds the scheduling code of \<^verbatim>\<open>Source/GB_AxB_saxpy3.c\<close>:
  the hash sizer \<^verbatim>\<open>GB_hash_table_size\<close>, the coarse task constructor
  \<^verbatim>\<open>GB_create_coarse_task\<close> and the body of \<^verbatim>\<open>GB_AxB_saxpy3\<close> (mask decision,
  task partitioner, workspace allocation, kernel dispatch, error paths).

  Conventions. An \<^verbatim>\<open>int64_t\<close> is an \<^typ>\<open>int\<close> and a \<^verbatim>\<open>double\<close> is a \<^typ>\<open>real\<close>:
  flop counts are far below the range where 64-bit integers wrap or where the
  conversion to \<^verbatim>\<open>double\<close> rounds, so arithmetic is exact. An array that the code
  only reads is a function from the index to the element.
\<close>

subsection \<open>Status codes and hint hints\<close>

text \<open>The values of \<^verbatim>\<open>GrB_Info\<close> that the file names, and the other error codes.\<close>

datatype GrB_Info =
    GrB_SUCCESS
  | GrB_NO_VALUE
  | GrB_OUT_OF_MEMORY
  | GrB_INVALID_VALUE
  | GrB_PANIC

text \<open>The values of \<^verbatim>\<open>GrB_Desc_Value\<close> that select the method of the product.\<close>

datatype GrB_Desc_Value =
    GxB_DEFAULT
  | GxB_AxB_GUSTAVSON
  | GxB_AxB_DOT
  | GxB_AxB_HASH
  | GxB_AxB_SAXPY

subsection \<open>The hash sizer\<close>

text \<open>C's integer division truncates towards zero.\<close>

definition c_div :: "int \<Rightarrow> int \<Rightarrow> int" where
  "c_div a b = sgn a * sgn b * (\<bar>a\<bar> div \<bar>b\<bar>)"

text \<open>
  \<^verbatim>\<open>floor (log2 ((double) flmax))\<close>. For \<open>flmax \<ge> 1\<close> it is \<open>bitlen flmax - 1\<close>
  (lemma \<open>floor_log2_eq\<close> below); \<open>bitlen\<close> has code equations, so the sizer runs.
\<close>

definition floor_log2 :: "int \<Rightarrow> int" where
  "floor_log2 flmax = bitlen flmax - 1"

text \<open>
  \<^verbatim>\<open>
  double hlog = log2 ((double) flmax) ;
  int64_t hash_size = ((int64_t) 2) << ((int64_t) floor (hlog) + 1) ;
  if (AxB_method == GxB_AxB_GUSTAVSON)  use_Gustavson = true ;
  else if (AxB_method == GxB_AxB_HASH)  use_Gustavson = (hash_size >= cvlen) ;
  else                                  use_Gustavson = (hash_size >= cvlen/16) ;
  if (use_Gustavson) hash_size = cvlen ;
  return (hash_size) ;
  \<close>
  The logarithm of zero or of a negative number has no integer value (the cast of
  minus infinity or of a NaN is undefined): the model returns \<open>None\<close> there.
\<close>

definition hash_size_of :: "int \<Rightarrow> int" where
  "hash_size_of flmax = 2 * 2 ^ nat (floor_log2 flmax + 1)"

definition use_Gustavson_of :: "int \<Rightarrow> int \<Rightarrow> GrB_Desc_Value \<Rightarrow> bool" where
  "use_Gustavson_of hash_size cvlen AxB_method =
     (if AxB_method = GxB_AxB_GUSTAVSON then True
      else if AxB_method = GxB_AxB_HASH then hash_size \<ge> cvlen
      else hash_size \<ge> c_div cvlen 16)"

definition GB_hash_table_size :: "int \<Rightarrow> int \<Rightarrow> GrB_Desc_Value \<Rightarrow> int option" where
  "GB_hash_table_size flmax cvlen AxB_method =
     (if flmax < 1 then None
      else let hash_size = hash_size_of flmax;
               use_Gustavson = use_Gustavson_of hash_size cvlen AxB_method
           in Some (if use_Gustavson then cvlen else hash_size))"





subsection \<open>Control parameters and tasks\<close>

definition GB_NTASKS_PER_THREAD :: int where "GB_NTASKS_PER_THREAD = 2"
definition GB_COSTLY :: real where "GB_COSTLY = 12 / 10"
definition GB_FINE_WORK :: real where "GB_FINE_WORK = 2"
definition GB_MWORK_ALPHA :: real where "GB_MWORK_ALPHA = 1 / 100"
definition GB_MWORK_BETA :: real where "GB_MWORK_BETA = 10 / 100"

text \<open>
  \<^verbatim>\<open>GB_saxpy3task_struct\<close>. The field \<^verbatim>\<open>end\<close> is \<open>end_entry\<close> here; a workspace
  pointer is an offset into its buffer, \<open>None\<close> for \<^verbatim>\<open>NULL\<close>.
\<close>

record GB_saxpy3task_struct =
  start :: int
  end_entry :: int
  vector :: int
  hsize :: int
  Hi :: "int option"
  Hf :: "int option"
  Hx :: "int option"
  my_cjnz :: int
  flops :: int
  leader :: int
  team_size :: int

text \<open>An entry of the task list as \<^verbatim>\<open>GB_CALLOC\<close> leaves it.\<close>

definition calloc_task :: GB_saxpy3task_struct where
  "calloc_task = \<lparr>start = 0, end_entry = 0, vector = 0, hsize = 0, Hi = None, Hf = None,
     Hx = None, my_cjnz = 0, flops = 0, leader = 0, team_size = 0\<rparr>"

text \<open>
  Functions and macros that the file uses and that are declared elsewhere; they are
  parameters of the model. \<open>GB_nthreads work chunk nthreads_max\<close> is the number of
  threads for some work, \<open>GB_PARTITION n tid nth\<close> the range \<open>(istart, iend)\<close> of
  thread \<open>tid\<close>, \<open>GB_cumsum count n\<close> the array after the cumulative sum and
  \<open>GB_pslice Work n ntasks\<close> the slice boundaries written by \<^verbatim>\<open>GB_pslice\<close>.
\<close>

record helpers =
  GB_nthreads :: "real \<Rightarrow> real \<Rightarrow> int \<Rightarrow> int"
  GB_PARTITION :: "int \<Rightarrow> int \<Rightarrow> int \<Rightarrow> int \<times> int"
  GB_cumsum :: "(int \<Rightarrow> int) \<Rightarrow> int \<Rightarrow> (int \<Rightarrow> int)"
  GB_pslice :: "(int \<Rightarrow> int) \<Rightarrow> int \<Rightarrow> int \<Rightarrow> (int \<Rightarrow> int)"

text \<open>
  What the partitioner reads: the cumulative flop counts \<open>Bflops\<close>, the vector
  pointers of \<open>B\<close> (\<open>None\<close> when \<^verbatim>\<open>Bp == NULL\<close>, for a full or bitmap \<open>B\<close>), the
  row index \<^verbatim>\<open>GBI (Bi, pB, bvlen)\<close> and presence \<^verbatim>\<open>GBB (Bb, pB)\<close> of an entry of
  \<open>B\<close>, the number of entries \<^verbatim>\<open>pA_end - pA\<close> that \<^verbatim>\<open>GB_lookup\<close> finds in
  \<open>A(:,k)\<close>, the sizes (\<open>cvlen = avlen\<close>, \<open>cvdim = bvdim\<close>, \<open>csize\<close> the size of an
  entry of \<open>C\<close>), and, set by \<^verbatim>\<open>GB_AxB_saxpy3\<close> before the tasks are made, the
  method, the target sizes and the initial coarse slices.
\<close>

record part_params =
  p_helpers :: helpers
  p_Bflops :: "int \<Rightarrow> int"
  p_Bp :: "(int \<Rightarrow> int) option"
  p_bvlen :: int
  p_bnvec :: int
  p_bvdim :: int
  p_cvlen :: int
  p_csize :: int
  p_is_any_pair_semiring :: bool
  p_GBI_Bi :: "int \<Rightarrow> int"
  p_GBB_Bb :: "int \<Rightarrow> bool"
  p_A_nnz :: "int \<Rightarrow> int"
  p_chunk :: real
  p_nthreads_max :: int
  p_AxB_method :: GrB_Desc_Value
  p_ntasks_initial :: int
  p_target_task_size :: real
  p_target_fine_size :: real
  p_Coarse_initial :: "int \<Rightarrow> int"

text \<open>\<^verbatim>\<open>GBP (Bp, k, bvlen)\<close>: where vector \<open>k\<close> starts.\<close>

definition GBP :: "(int \<Rightarrow> int) option \<Rightarrow> int \<Rightarrow> int \<Rightarrow> int" where
  "GBP Bp k vlen = (case Bp of None \<Rightarrow> k * vlen | Some p \<Rightarrow> p k)"

text \<open>
  \<^verbatim>\<open>
  ntasks_initial = (nthreads == 1) ? 1 : (GB_NTASKS_PER_THREAD * nthreads) ;
  double target_task_size = ((double) total_flops) / ntasks_initial ;
  target_task_size = GB_IMAX (target_task_size, chunk) ;
  double target_fine_size = target_task_size / GB_FINE_WORK ;
  target_fine_size = GB_IMAX (target_fine_size, chunk) ;
  \<close>
\<close>

definition ntasks_initial_of :: "int \<Rightarrow> int" where
  "ntasks_initial_of nthreads = (if nthreads = 1 then 1 else GB_NTASKS_PER_THREAD * nthreads)"

definition target_task_size_of :: "int \<Rightarrow> int \<Rightarrow> real \<Rightarrow> real" where
  "target_task_size_of total_flops ntasks_initial chunk =
     max (real_of_int total_flops / real_of_int ntasks_initial) chunk"

definition target_fine_size_of :: "real \<Rightarrow> real \<Rightarrow> real" where
  "target_fine_size_of target_task_size chunk = max (target_task_size / GB_FINE_WORK) chunk"

subsection \<open>GB\_create\_coarse\_task\<close>

text \<open>
  Each thread \<open>tid\<close> of \<open>nth\<close> takes the maximum, starting from 1, of the flop counts
  of its share of the vectors; the results are combined, starting from 1 again.
\<close>

definition my_flmax :: "(int \<Rightarrow> int) \<Rightarrow> int \<Rightarrow> int \<Rightarrow> int \<Rightarrow> int" where
  "my_flmax Bflops kfirst istart iend =
     fold (\<lambda>i m. max m (Bflops (kfirst + i + 1) - Bflops (kfirst + i))) [istart..iend - 1] 1"

definition coarse_flmax :: "helpers \<Rightarrow> (int \<Rightarrow> int) \<Rightarrow> int \<Rightarrow> int \<Rightarrow> real \<Rightarrow> int \<Rightarrow> int" where
  "coarse_flmax H Bflops kfirst klast chunk nthreads_max =
     (let nk = klast - kfirst + 1;
          nth = GB_nthreads H (real_of_int nk) chunk nthreads_max;
          Coarse_Work = (\<lambda>tid. case GB_PARTITION H nk tid nth of
                                  (istart, iend) \<Rightarrow> my_flmax Bflops kfirst istart iend)
      in fold (\<lambda>tid flmax. max flmax (Coarse_Work tid)) [0..nth - 1] 1)"

definition GB_create_coarse_task ::
  "helpers \<Rightarrow> int \<Rightarrow> int \<Rightarrow> GB_saxpy3task_struct list \<Rightarrow> int \<Rightarrow> (int \<Rightarrow> int) \<Rightarrow> int \<Rightarrow> real
     \<Rightarrow> int \<Rightarrow> GrB_Desc_Value \<Rightarrow> GB_saxpy3task_struct list option" where
  "GB_create_coarse_task H kfirst klast TaskList taskid Bflops cvlen chunk nthreads_max AxB_method =
     (let flmax = coarse_flmax H Bflops kfirst klast chunk nthreads_max
      in case GB_hash_table_size flmax cvlen AxB_method of
           None \<Rightarrow> None
         | Some h \<Rightarrow> Some (TaskList [nat taskid :=
             \<lparr>start = kfirst, end_entry = klast, vector = - 1, hsize = h,
              Hi = None, Hf = None, Hx = None, my_cjnz = 0,
              flops = Bflops (klast + 1) - Bflops kfirst,
              leader = taskid, team_size = 1\<rparr>]))"

subsection \<open>The partitioner: counting the tasks\<close>

definition jflops_of :: "part_params \<Rightarrow> int \<Rightarrow> int" where
  "jflops_of P kk = p_Bflops P (kk + 1) - p_Bflops P kk"

definition bjnz_of :: "part_params \<Rightarrow> int \<Rightarrow> int" where
  "bjnz_of P kk = (case p_Bp P of None \<Rightarrow> p_bvlen P | Some Bp \<Rightarrow> Bp (kk + 1) - Bp kk)"

text \<open>\<^verbatim>\<open>jflops > GB_COSTLY * target_task_size && bjnz > 1\<close>\<close>

definition costly_vector :: "part_params \<Rightarrow> int \<Rightarrow> bool" where
  "costly_vector P kk \<longleftrightarrow>
     real_of_int (jflops_of P kk) > GB_COSTLY * p_target_task_size P \<and> bjnz_of P kk > 1"

text \<open>\<^verbatim>\<open>int team_size = ceil (jflops / target_fine_size)\<close>\<close>

definition team_size_of :: "part_params \<Rightarrow> int \<Rightarrow> int" where
  "team_size_of P kk = \<lceil>real_of_int (jflops_of P kk) / p_target_fine_size P\<rceil>"

text \<open>\<^verbatim>\<open>task_flops > 2 * GB_COSTLY * target_task_size\<close>\<close>

definition chunk_too_costly :: "part_params \<Rightarrow> int \<Rightarrow> int \<Rightarrow> bool" where
  "chunk_too_costly P kfirst klast \<longleftrightarrow>
     real_of_int (p_Bflops P klast - p_Bflops P kfirst) > 2 * GB_COSTLY * p_target_task_size P"

text \<open>
  The first pass over the initial coarse tasks counts the tasks. The state of its inner
  loop is \<open>(kcoarse_start, ncoarse, nfine, max_bjnz)\<close>.
\<close>

definition count_vector :: "part_params \<Rightarrow> int \<Rightarrow> int \<times> int \<times> int \<times> int \<Rightarrow> int \<times> int \<times> int \<times> int" where
  "count_vector P kk s =
     (case s of (kcoarse_start, ncoarse, nfine, max_bjnz) \<Rightarrow>
        if costly_vector P kk
        then (kk + 1,
              (if kcoarse_start < kk then ncoarse + 1 else ncoarse),
              nfine + team_size_of P kk,
              max max_bjnz (bjnz_of P kk))
        else (kcoarse_start, ncoarse, nfine, max_bjnz))"

definition count_chunk :: "part_params \<Rightarrow> int \<Rightarrow> int \<times> int \<times> int \<Rightarrow> int \<times> int \<times> int" where
  "count_chunk P taskid s =
     (case s of (ncoarse, nfine, max_bjnz) \<Rightarrow>
        let kfirst = p_Coarse_initial P taskid;
            klast = p_Coarse_initial P (taskid + 1);
            task_ncols = klast - kfirst
        in if task_ncols = 0 then (ncoarse, nfine, max_bjnz)
           else if chunk_too_costly P kfirst klast
           then (case fold (count_vector P) [kfirst..klast - 1] (kfirst, ncoarse, nfine, max_bjnz) of
                   (kcoarse_start, ncoarse', nfine', max_bjnz') \<Rightarrow>
                     ((if kcoarse_start < klast then ncoarse' + 1 else ncoarse'), nfine', max_bjnz'))
           else (ncoarse + 1, nfine, max_bjnz))"

text \<open>The result is \<open>(ncoarse, nfine, max_bjnz)\<close>.\<close>

definition count_tasks :: "part_params \<Rightarrow> int \<times> int \<times> int" where
  "count_tasks P =
     (if p_ntasks_initial P > 1
      then fold (count_chunk P) [0..p_ntasks_initial P - 1] (0, 0, 0)
      else if p_bnvec P = 1 then (0, 1, 0) else (1, 0, 0))"

subsection \<open>The partitioner: creating the tasks\<close>

text \<open>
  The second pass writes the tasks: fine tasks at \<open>nf\<close>, from 0, and coarse tasks at
  \<open>nc\<close>, from \<open>nfine\<close>. \<open>Bflops2\<close> is the workspace for the flop counts of the
  entries of one vector of \<open>B\<close>.
\<close>

record pstate =
  ps_nf :: int
  ps_nc :: int
  ps_TaskList :: "GB_saxpy3task_struct list"
  ps_Bflops2 :: "int \<Rightarrow> int"

text \<open>
  The flop count of each present entry \<open>B(k,j)\<close> of the vector is written to
  \<open>Bflops2 [s]\<close>; an entry that is not in the bitmap is skipped and leaves the old
  content.
\<close>

definition entry_flops :: "part_params \<Rightarrow> int \<Rightarrow> (int \<Rightarrow> int) \<Rightarrow> (int \<Rightarrow> int)" where
  "entry_flops P kk Bflops2 =
     (let pB_start = GBP (p_Bp P) kk (p_bvlen P)
      in (\<lambda>s. if 0 \<le> s \<and> s < bjnz_of P kk \<and> p_GBB_Bb P (pB_start + s)
               then p_A_nnz P (p_GBI_Bi P (pB_start + s))
               else Bflops2 s))"

definition fine_task ::
  "part_params \<Rightarrow> int \<Rightarrow> (int \<Rightarrow> int) \<Rightarrow> (int \<Rightarrow> int) \<Rightarrow> int \<Rightarrow> int \<Rightarrow> int \<Rightarrow> GB_saxpy3task_struct" where
  "fine_task P kk Bflops2 Fine_slice h ldr fid =
     (let pB_start = GBP (p_Bp P) kk (p_bvlen P);
          pstart = Fine_slice fid;
          pend = Fine_slice (fid + 1);
          fl = Bflops2 pend - Bflops2 pstart
      in \<lparr>start = pB_start + pstart, end_entry = pB_start + pend - 1, vector = kk, hsize = h,
          Hi = None, Hf = None, Hx = None, my_cjnz = 0, flops = fl,
          leader = ldr, team_size = team_size_of P kk\<rparr>)"

definition put_fine :: "GB_saxpy3task_struct \<Rightarrow> pstate \<Rightarrow> pstate" where
  "put_fine t s = s\<lparr>ps_TaskList := (ps_TaskList s) [nat (ps_nf s) := t], ps_nf := ps_nf s + 1\<rparr>"

text \<open>
  The team of fine tasks of the costly vector \<open>kk\<close>. The hash table is sized for
  \<open>jflops\<close>, whose conversion from \<^verbatim>\<open>double\<close> back to \<^verbatim>\<open>int64_t\<close> is exact.
\<close>

definition create_fine_team :: "part_params \<Rightarrow> int \<Rightarrow> pstate \<Rightarrow> pstate option" where
  "create_fine_team P kk s =
     (let bjnz = bjnz_of P kk;
          Bflops2 = GB_cumsum (p_helpers P) (entry_flops P kk (ps_Bflops2 s)) bjnz;
          team = team_size_of P kk;
          Fine_slice = GB_pslice (p_helpers P) Bflops2 bjnz team
      in case GB_hash_table_size (jflops_of P kk) (p_cvlen P) (p_AxB_method P) of
           None \<Rightarrow> None
         | Some h \<Rightarrow>
             Some (fold (\<lambda>fid. put_fine (fine_task P kk Bflops2 Fine_slice h (ps_nf s) fid))
                     [0..team - 1] (s\<lparr>ps_Bflops2 := Bflops2\<rparr>)))"

definition put_coarse :: "part_params \<Rightarrow> int \<Rightarrow> int \<Rightarrow> pstate \<Rightarrow> pstate option" where
  "put_coarse P kfirst klast s =
     (case GB_create_coarse_task (p_helpers P) kfirst klast (ps_TaskList s) (ps_nc s) (p_Bflops P)
             (p_cvlen P) (p_chunk P) (p_nthreads_max P) (p_AxB_method P) of
        None \<Rightarrow> None
      | Some TaskList \<Rightarrow> Some (s\<lparr>ps_TaskList := TaskList, ps_nc := ps_nc s + 1\<rparr>))"

text \<open>One step of the loop over the vectors \<open>kk\<close> of a costly initial coarse task.\<close>

definition create_vector :: "part_params \<Rightarrow> int \<Rightarrow> (int \<times> pstate) option \<Rightarrow> (int \<times> pstate) option" where
  "create_vector P kk r =
     (case r of None \<Rightarrow> None
      | Some (kcoarse_start, s) \<Rightarrow>
          if costly_vector P kk
          then (case (if kcoarse_start < kk then put_coarse P kcoarse_start (kk - 1) s else Some s) of
                  None \<Rightarrow> None
                | Some s' \<Rightarrow> (case create_fine_team P kk s' of
                               None \<Rightarrow> None
                             | Some s'' \<Rightarrow> Some (kk + 1, s'')))
          else Some (kcoarse_start, s))"

definition create_chunk :: "part_params \<Rightarrow> int \<Rightarrow> pstate option \<Rightarrow> pstate option" where
  "create_chunk P taskid r =
     (case r of None \<Rightarrow> None
      | Some s \<Rightarrow>
          let kfirst = p_Coarse_initial P taskid;
              klast = p_Coarse_initial P (taskid + 1);
              task_ncols = klast - kfirst
          in if task_ncols = 0 then Some s
             else if chunk_too_costly P kfirst klast
             then (case fold (create_vector P) [kfirst..klast - 1] (Some (kfirst, s)) of
                     None \<Rightarrow> None
                   | Some (kcoarse_start, s') \<Rightarrow>
                       if kcoarse_start < klast then put_coarse P kcoarse_start (klast - 1) s'
                       else Some s')
             else put_coarse P kfirst (klast - 1) s)"

text \<open>
  The single task when there is one initial task: a coarse task over all vectors, made
  with \<open>chunk = 1\<close> and one thread, turned into a fine task when \<open>B\<close> has one vector.
\<close>

definition create_single :: "part_params \<Rightarrow> GB_saxpy3task_struct list \<Rightarrow> GB_saxpy3task_struct list option" where
  "create_single P TaskList =
     (case GB_create_coarse_task (p_helpers P) 0 (p_bnvec P - 1) TaskList 0 (p_Bflops P)
             (p_cvlen P) 1 1 (p_AxB_method P) of
        None \<Rightarrow> None
      | Some TL \<Rightarrow>
          if p_bnvec P = 1
          then Some (TL [0 := (TL ! 0)\<lparr>start := 0, end_entry := GBP (p_Bp P) 1 (p_bvlen P) - 1,
                                      vector := 0\<rparr>])
          else Some TL)"

text \<open>
  Both passes: the task list has \<open>ntasks = ncoarse + nfine\<close> entries, cleared by
  \<^verbatim>\<open>GB_CALLOC\<close>. The result is \<open>None\<close> when a hash table would be sized for a flop
  count below 1.
\<close>

definition create_tasks :: "part_params \<Rightarrow> (int \<Rightarrow> int) \<Rightarrow> GB_saxpy3task_struct list option" where
  "create_tasks P Bflops2 =
     (case count_tasks P of (ncoarse, nfine, max_bjnz) \<Rightarrow>
        let ntasks = ncoarse + nfine;
            TaskList = replicate (nat ntasks) calloc_task
        in if p_ntasks_initial P > 1
           then map_option ps_TaskList
                  (fold (create_chunk P) [0..p_ntasks_initial P - 1]
                     (Some \<lparr>ps_nf = 0, ps_nc = nfine, ps_TaskList = TaskList, ps_Bflops2 = Bflops2\<rparr>))
           else create_single P TaskList)"


subsection \<open>The mask decision\<close>

text \<open>
  \<^verbatim>\<open>GB_is_packed (M)\<close>: all entries of \<open>M\<close> are present. The function is declared
  elsewhere, so its value on a matrix is the parameter \<open>packed\<close>; a \<^verbatim>\<open>NULL\<close> mask is
  not packed (the code asserts \<^verbatim>\<open>M != NULL\<close> where \<open>M\<close> is dense).
\<close>

definition GB_is_packed :: "('m \<Rightarrow> bool) \<Rightarrow> 'm option \<Rightarrow> bool" where
  "GB_is_packed packed M = (case M of None \<Rightarrow> False | Some m \<Rightarrow> packed m)"

text \<open>What the decision leaves for the rest of the function.\<close>

record 'm mask_decision =
  md_M :: "'m option"
  md_Mask_comp :: bool
  md_M_dense_in_place :: bool
  md_AxB_method :: GrB_Desc_Value
  md_Mwork :: int
  md_Bflops :: "int \<Rightarrow> int"
  md_total_flops :: int

text \<open>
  \<open>flopcount M Mask_comp Bflops\<close> stands for \<^verbatim>\<open>GB_AxB_saxpy3_flopcount\<close>, which is
  declared elsewhere: it returns the status, \<open>Mwork\<close> and the new \<open>Bflops\<close>. A status
  other than success leaves the function through \<^verbatim>\<open>GB_OK\<close> (the \<open>Inl\<close> result).

  \<^verbatim>\<open>
  double axbflops = total_flops - Mwork ;
  bool M_is_dense = GB_is_packed (M) ;
  bool M_dense_in_place = false ;
  if (M_is_dense && (AxB_method == GxB_DEFAULT || AxB_method == GxB_AxB_SAXPY))
  {
      Mwork = cvlen * cvdim ;
      if (axbflops < (double) Mwork * GB_MWORK_BETA)
      {   M_dense_in_place = true ; AxB_method = GxB_AxB_HASH ; }
      else
      {   AxB_method = GxB_AxB_GUSTAVSON ;
          for (kk = 0 ; kk <= bnvec ; kk++) Bflops [kk] += cvlen * (kk+1) ;
          total_flops = Bflops [bnvec] ; }
  }
  else if ((M != NULL) && (axbflops < ((double) Mwork * GB_MWORK_ALPHA)))
  {   M = NULL ; Mask_comp = false ;
      for (kk = 0 ; kk <= bnvec ; kk++) Bflops [kk] = 0 ;
      GB_OK (GB_AxB_saxpy3_flopcount (&Mwork, Bflops, NULL, false, A, B, Context)) ;
      total_flops = Bflops [bnvec] ; }
  else if (M != NULL) { }
  \<close>
\<close>

definition saxpy3_mask_decision ::
  "('m \<Rightarrow> bool) \<Rightarrow> ('m option \<Rightarrow> bool \<Rightarrow> (int \<Rightarrow> int) \<Rightarrow> GrB_Info \<times> int \<times> (int \<Rightarrow> int))
     \<Rightarrow> 'm option \<Rightarrow> bool \<Rightarrow> GrB_Desc_Value \<Rightarrow> int \<Rightarrow> (int \<Rightarrow> int) \<Rightarrow> int \<Rightarrow> int \<Rightarrow> int
     \<Rightarrow> GrB_Info + 'm mask_decision" where
  "saxpy3_mask_decision packed flopcount M Mask_comp AxB_method Mwork Bflops cvlen cvdim bnvec =
     (let total_flops = Bflops bnvec;
          axbflops = real_of_int (total_flops - Mwork);
          M_is_dense = GB_is_packed packed M
      in if M_is_dense \<and> (AxB_method = GxB_DEFAULT \<or> AxB_method = GxB_AxB_SAXPY)
         then let Mwork' = cvlen * cvdim
              in if axbflops < real_of_int Mwork' * GB_MWORK_BETA
                 then Inr \<lparr>md_M = M, md_Mask_comp = Mask_comp, md_M_dense_in_place = True,
                           md_AxB_method = GxB_AxB_HASH, md_Mwork = Mwork', md_Bflops = Bflops,
                           md_total_flops = total_flops\<rparr>
                 else let Bflops' = (\<lambda>kk. if 0 \<le> kk \<and> kk \<le> bnvec
                                           then Bflops kk + cvlen * (kk + 1) else Bflops kk)
                      in Inr \<lparr>md_M = M, md_Mask_comp = Mask_comp, md_M_dense_in_place = False,
                                md_AxB_method = GxB_AxB_GUSTAVSON, md_Mwork = Mwork',
                                md_Bflops = Bflops', md_total_flops = Bflops' bnvec\<rparr>
         else if M \<noteq> None \<and> axbflops < real_of_int Mwork * GB_MWORK_ALPHA
         then (case flopcount None False (\<lambda>kk. if 0 \<le> kk \<and> kk \<le> bnvec then 0 else Bflops kk) of
                 (info, Mwork', Bflops') \<Rightarrow>
                   if info \<noteq> GrB_SUCCESS then Inl info
                   else Inr \<lparr>md_M = None, md_Mask_comp = False, md_M_dense_in_place = False,
                             md_AxB_method = AxB_method, md_Mwork = Mwork', md_Bflops = Bflops',
                             md_total_flops = Bflops' bnvec\<rparr>)
         else Inr \<lparr>md_M = M, md_Mask_comp = Mask_comp, md_M_dense_in_place = False,
                   md_AxB_method = AxB_method, md_Mwork = Mwork, md_Bflops = Bflops,
                   md_total_flops = total_flops\<rparr>)"

text \<open>
  \<^verbatim>\<open>
  int nthreads = GB_nthreads ((double) total_flops, chunk, nthreads_max) ;
  \<close>
  and the sizes that follow from it; \<^verbatim>\<open>GB_pslice\<close> slices the vectors by \<open>Bflops\<close>
  into the initial coarse tasks.
\<close>

definition partition_params :: "part_params \<Rightarrow> (int \<Rightarrow> int) \<Rightarrow> int \<Rightarrow> GrB_Desc_Value \<Rightarrow> part_params" where
  "partition_params P Bflops total_flops AxB_method =
     (let nthreads = GB_nthreads (p_helpers P) (real_of_int total_flops) (p_chunk P) (p_nthreads_max P);
          ntasks_initial = ntasks_initial_of nthreads;
          target_task_size = target_task_size_of total_flops ntasks_initial (p_chunk P);
          target_fine_size = target_fine_size_of target_task_size (p_chunk P)
      in P\<lparr>p_Bflops := Bflops, p_AxB_method := AxB_method, p_ntasks_initial := ntasks_initial,
           p_target_task_size := target_task_size, p_target_fine_size := target_fine_size,
           p_Coarse_initial := GB_pslice (p_helpers P) Bflops (p_bnvec P) ntasks_initial\<rparr>)"

subsection \<open>The hash tables\<close>

text \<open>\<^verbatim>\<open>GB_ICEIL (a, b)\<close> is \<open>(a + b - 1) / b\<close>.\<close>

definition GB_ICEIL :: "int \<Rightarrow> int \<Rightarrow> int" where
  "GB_ICEIL a b = c_div (a + b - 1) b"

definition hx_pad :: int where "hx_pad = 64"
definition hi_pad :: int where "hi_pad = c_div 64 8"

text \<open>
  The sizes \<open>(Hi_size_total, Hf_size_total, Hx_size_total)\<close>, summed over the tasks
  that lead their team.
\<close>

definition hash_sizes_task ::
  "part_params \<Rightarrow> GB_saxpy3task_struct list \<Rightarrow> int \<Rightarrow> int \<times> int \<times> int \<Rightarrow> int \<times> int \<times> int" where
  "hash_sizes_task P TaskList taskid tot =
     (case tot of (Hi_size_total, Hf_size_total, Hx_size_total) \<Rightarrow>
        if taskid \<noteq> leader (TaskList ! nat taskid) then tot
        else let hash_size = hsize (TaskList ! nat taskid);
                 k = vector (TaskList ! nat taskid);
                 is_fine = (k \<ge> 0);
                 use_Gustavson = (hash_size = p_cvlen P)
             in ((if \<not> is_fine \<and> \<not> use_Gustavson then Hi_size_total + (hash_size + hi_pad)
                  else Hi_size_total),
                 (if is_fine \<and> use_Gustavson then Hf_size_total + GB_ICEIL (hash_size + hi_pad) 8
                  else Hf_size_total + (hash_size + hi_pad)),
                 (if \<not> p_is_any_pair_semiring P then Hx_size_total + (hash_size * p_csize P + hx_pad)
                  else Hx_size_total)))"

definition hash_sizes_total :: "part_params \<Rightarrow> GB_saxpy3task_struct list \<Rightarrow> int \<Rightarrow> int \<times> int \<times> int" where
  "hash_sizes_total P TaskList ntasks = fold (hash_sizes_task P TaskList) [0..ntasks - 1] (0, 0, 0)"

text \<open>
  The buffers are split in the same order: each leader gets the current offsets
  \<open>(Hi_split, Hf_split, Hx_split)\<close>, which then advance by its sizes. A buffer that
  was not allocated is \<^verbatim>\<open>NULL\<close>.
\<close>

definition split_task ::
  "part_params \<Rightarrow> bool \<times> bool \<times> bool \<Rightarrow> int
     \<Rightarrow> GB_saxpy3task_struct list \<times> (int \<times> int \<times> int)
     \<Rightarrow> GB_saxpy3task_struct list \<times> (int \<times> int \<times> int)" where
  "split_task P bufs taskid r =
     (case (bufs, r) of ((Hi_all, Hf_all, Hx_all), (TaskList, split)) \<Rightarrow>
        if taskid \<noteq> leader (TaskList ! nat taskid) then r
        else (case split of (Hi_split, Hf_split, Hx_split) \<Rightarrow>
               (TaskList [nat taskid := (TaskList ! nat taskid)
                   \<lparr>Hi := (if Hi_all then Some Hi_split else None),
                    Hf := (if Hf_all then Some Hf_split else None),
                    Hx := (if Hx_all then Some Hx_split else None)\<rparr>],
                hash_sizes_task P TaskList taskid split)))"

text \<open>A fine task that is not the leader of its team takes the leader's \<open>Hf\<close> and \<open>Hx\<close>.\<close>

definition share_task :: "int \<Rightarrow> GB_saxpy3task_struct list \<Rightarrow> GB_saxpy3task_struct list" where
  "share_task taskid TaskList =
     (let ldr = leader (TaskList ! nat taskid)
      in if taskid \<noteq> ldr
         then TaskList [nat taskid := (TaskList ! nat taskid)
                 \<lparr>Hf := Hf (TaskList ! nat ldr), Hx := Hx (TaskList ! nat ldr)\<rparr>]
         else TaskList)"

definition assign_hash_tables ::
  "part_params \<Rightarrow> bool \<times> bool \<times> bool \<Rightarrow> int \<Rightarrow> int \<Rightarrow> GB_saxpy3task_struct list
     \<Rightarrow> GB_saxpy3task_struct list" where
  "assign_hash_tables P bufs ntasks nfine TaskList =
     fold share_task [0..nfine - 1]
       (fst (fold (split_task P bufs) [0..ntasks - 1] (TaskList, (0, 0, 0))))"

subsection \<open>GB\_AxB\_saxpy3\<close>

text \<open>
  What the caller and the allocator see: \<^verbatim>\<open>*Chandle\<close>, \<^verbatim>\<open>*mask_applied\<close>, and for
  each workspace pointer whether it holds a block (\<open>False\<close> is \<^verbatim>\<open>NULL\<close>).
\<close>

record 'c saxpy3_state =
  Chandle :: "'c option"
  mask_applied :: bool
  Bflops2 :: bool
  Coarse_Work :: bool
  Coarse_initial :: bool
  Fine_slice :: bool
  TaskList :: bool
  Hi_all :: bool
  Hf_all :: bool
  Hx_all :: bool

text \<open>\<^verbatim>\<open>GB_FREE\<close> releases a block and clears the pointer; on \<^verbatim>\<open>NULL\<close> it does nothing.\<close>

definition GB_FREE_INITIAL_WORK :: "'c saxpy3_state \<Rightarrow> 'c saxpy3_state" where
  "GB_FREE_INITIAL_WORK s =
     s\<lparr>Bflops2 := False, Coarse_Work := False, Coarse_initial := False, Fine_slice := False\<rparr>"

definition GB_FREE_WORK :: "'c saxpy3_state \<Rightarrow> 'c saxpy3_state" where
  "GB_FREE_WORK s =
     (GB_FREE_INITIAL_WORK s)\<lparr>TaskList := False, Hi_all := False, Hf_all := False, Hx_all := False\<rparr>"

text \<open>\<^verbatim>\<open>GB_Matrix_free (Chandle)\<close> frees the matrix and sets \<^verbatim>\<open>*Chandle\<close> to \<^verbatim>\<open>NULL\<close>.\<close>

definition GB_FREE_ALL :: "'c saxpy3_state \<Rightarrow> 'c saxpy3_state" where
  "GB_FREE_ALL s = (GB_FREE_WORK s)\<lparr>Chandle := None\<rparr>"

datatype workspace =
    W_Coarse_initial | W_TaskList | W_Coarse_Work | W_Fine_slice | W_Bflops2
  | W_Hi_all | W_Hf_all | W_Hx_all

text \<open>The arguments that the symbolic phase and the numeric kernels share.\<close>

record 'm kernel_args =
  ka_M :: "'m option"
  ka_Mask_comp :: bool
  ka_Mask_struct :: bool
  ka_M_dense_in_place :: bool
  ka_TaskList :: "GB_saxpy3task_struct list"
  ka_ntasks :: int
  ka_nfine :: int
  ka_nthreads :: int

text \<open>
  The functions that \<^verbatim>\<open>GB_AxB_saxpy3\<close> calls and that are declared elsewhere, with
  the inputs \<open>A\<close>, \<open>B\<close> and the semiring fixed:
  \<^item> \<open>c_mkl\<close>: the result \<open>(info, *Chandle, *mask_applied)\<close> of \<^verbatim>\<open>GB_AxB_saxpy3_mkl\<close>,
    \<open>None\<close> when \<^verbatim>\<open>GB_HAS_MKL_GRAPH\<close> is off or \<^verbatim>\<open>use_mkl\<close> is false;
  \<^item> \<open>c_GB_new\<close>: the status of \<^verbatim>\<open>GB_new\<close> and the new header;
  \<^item> \<open>c_packed\<close>, \<open>c_flopcount\<close>: see the mask decision;
  \<^item> \<open>c_alloc\<close>: whether the allocation of a workspace succeeds;
  \<^item> \<open>c_Bflops2_init\<close>: the content of \<open>Bflops2\<close> as \<^verbatim>\<open>GB_MALLOC\<close> leaves it;
  \<^item> \<open>c_symbolic\<close>: \<^verbatim>\<open>GB_AxB_saxpy3_symbolic\<close>;
  \<^item> \<open>c_builtin_semiring\<close> and \<open>c_worker\<close>: the result of
    \<^verbatim>\<open>GB_AxB_semiring_builtin\<close> and the worker \<^verbatim>\<open>GB_Asaxpy3B (add,mult,xname)\<close> that the
    switch factory selects, \<open>None\<close> when it has no case (or with \<^verbatim>\<open>GBCOMPACT\<close>);
  \<^item> \<open>c_generic\<close>: \<^verbatim>\<open>GB_AxB_saxpy3_generic\<close>;
  \<^item> \<open>c_prune\<close>: \<^verbatim>\<open>GB_hypermatrix_prune\<close>.
\<close>

record ('m, 'c) callees =
  c_mkl :: "(GrB_Info \<times> 'c option \<times> bool) option"
  c_GB_new :: "GrB_Info \<times> 'c"
  c_packed :: "'m \<Rightarrow> bool"
  c_flopcount :: "'m option \<Rightarrow> bool \<Rightarrow> (int \<Rightarrow> int) \<Rightarrow> GrB_Info \<times> int \<times> (int \<Rightarrow> int)"
  c_alloc :: "workspace \<Rightarrow> bool"
  c_Bflops2_init :: "int \<Rightarrow> int"
  c_symbolic :: "'m kernel_args \<Rightarrow> 'c \<Rightarrow> 'c"
  c_builtin_semiring :: bool
  c_worker :: "('m kernel_args \<Rightarrow> 'c \<Rightarrow> GrB_Info \<times> 'c) option"
  c_generic :: "'m kernel_args \<Rightarrow> 'c \<Rightarrow> GrB_Info \<times> 'c"
  c_prune :: "'c \<Rightarrow> GrB_Info \<times> 'c"

text \<open>
  The numeric phase: the switch factory when the semiring is built in, then the generic
  method unless a worker is done.
  \<^verbatim>\<open>
  bool done = false ;
  if (builtin_semiring)
  {   info = GB_Asaxpy3B (add,mult,xname) (C, M, ...) ;
      done = (info != GrB_NO_VALUE) ; }
  if (!done)
  {   info = GB_AxB_saxpy3_generic (C, M, ...) ; }
  \<close>
\<close>

definition saxpy3_numeric :: "('m, 'c) callees \<Rightarrow> 'm kernel_args \<Rightarrow> 'c \<Rightarrow> GrB_Info \<times> 'c" where
  "saxpy3_numeric K args C =
     (case (if c_builtin_semiring K
            then (case c_worker K of
                    None \<Rightarrow> (False, GrB_SUCCESS, C)
                  | Some worker \<Rightarrow> (case worker args C of
                                     (info, C') \<Rightarrow> (info \<noteq> GrB_NO_VALUE, info, C')))
            else (False, GrB_SUCCESS, C)) of
        (done, info, C') \<Rightarrow> if \<not> done then c_generic K args C' else (info, C'))"

text \<open>
  From the symbolic phase to the return.
  \<^verbatim>\<open>
  GB_AxB_saxpy3_symbolic (C, M, ...) ;
  ...
  if (info != GrB_SUCCESS)
  {   GB_FREE_ALL ; return (GrB_OUT_OF_MEMORY) ; }
  GB_FREE_WORK ;
  GB_OK (GB_hypermatrix_prune (C, Context)) ;
  (*mask_applied) = apply_mask ;
  return (info) ;
  \<close>
\<close>

definition saxpy3_kernels ::
  "('m, 'c) callees \<Rightarrow> 'm kernel_args \<Rightarrow> 'c \<Rightarrow> 'c saxpy3_state \<Rightarrow> GrB_Info \<times> 'c saxpy3_state" where
  "saxpy3_kernels K args C s =
     (case saxpy3_numeric K args (c_symbolic K args C) of
        (info, C') \<Rightarrow>
          if info \<noteq> GrB_SUCCESS then (GrB_OUT_OF_MEMORY, GB_FREE_ALL (s\<lparr>Chandle := Some C'\<rparr>))
          else (case c_prune K C' of
                  (pinfo, C'') \<Rightarrow>
                    if pinfo \<noteq> GrB_SUCCESS
                    then (pinfo, GB_FREE_ALL (GB_FREE_WORK (s\<lparr>Chandle := Some C''\<rparr>)))
                    else (info, (GB_FREE_WORK (s\<lparr>Chandle := Some C''\<rparr>))
                                 \<lparr>mask_applied := (ka_M args \<noteq> None)\<rparr>)))"

text \<open>
  From the task list to the hash tables: the initial workspace is freed, the buffers
  are allocated when their size is positive, and the function leaves with
  \<^verbatim>\<open>GrB_OUT_OF_MEMORY\<close> when one that is needed is \<^verbatim>\<open>NULL\<close>.
\<close>

definition saxpy3_hash ::
  "('m, 'c) callees \<Rightarrow> part_params \<Rightarrow> 'm mask_decision \<Rightarrow> bool \<Rightarrow> int \<Rightarrow> int \<Rightarrow> int
     \<Rightarrow> GB_saxpy3task_struct list \<Rightarrow> 'c \<Rightarrow> 'c saxpy3_state \<Rightarrow> GrB_Info \<times> 'c saxpy3_state" where
  "saxpy3_hash K P d Mask_struct ntasks nfine nthreads TL C s =
     (case hash_sizes_total P TL ntasks of
        (Hi_size_total, Hf_size_total, Hx_size_total) \<Rightarrow>
          let s1 = (GB_FREE_INITIAL_WORK s)
                     \<lparr>Hi_all := (Hi_size_total > 0 \<and> c_alloc K W_Hi_all),
                      Hf_all := (Hf_size_total > 0 \<and> c_alloc K W_Hf_all),
                      Hx_all := (Hx_size_total > 0 \<and> c_alloc K W_Hx_all)\<rparr>
          in if (Hi_size_total > 0 \<and> \<not> Hi_all s1) \<or> (Hf_size_total > 0 \<and> \<not> Hf_all s1)
                  \<or> (Hx_size_total > 0 \<and> \<not> Hx_all s1)
             then (GrB_OUT_OF_MEMORY, GB_FREE_ALL s1)
             else saxpy3_kernels K
                    \<lparr>ka_M = md_M d, ka_Mask_comp = md_Mask_comp d, ka_Mask_struct = Mask_struct,
                     ka_M_dense_in_place = md_M_dense_in_place d,
                     ka_TaskList = assign_hash_tables P (Hi_all s1, Hf_all s1, Hx_all s1) ntasks nfine TL,
                     ka_ntasks = ntasks, ka_nfine = nfine, ka_nthreads = nthreads\<rparr>
                    C s1)"

text \<open>
  The partitioner inside the function: the initial coarse slices, the count of the
  tasks, the allocation of the task list and of the workspace, and the tasks. The
  result is \<open>None\<close> when a hash table would be sized for a flop count below 1.
\<close>

definition saxpy3_tasks ::
  "('m, 'c) callees \<Rightarrow> part_params \<Rightarrow> 'm mask_decision \<Rightarrow> bool \<Rightarrow> 'c \<Rightarrow> 'c saxpy3_state
     \<Rightarrow> (GrB_Info \<times> 'c saxpy3_state) option" where
  "saxpy3_tasks K P0 d Mask_struct C s =
     (let P = partition_params P0 (md_Bflops d) (md_total_flops d) (md_AxB_method d);
          nthreads = GB_nthreads (p_helpers P) (real_of_int (md_total_flops d)) (p_chunk P)
                       (p_nthreads_max P)
      in if p_ntasks_initial P > 1 \<and> \<not> c_alloc K W_Coarse_initial
         then Some (GrB_OUT_OF_MEMORY, GB_FREE_ALL s)
         else (case count_tasks P of
                 (ncoarse, nfine, max_bjnz) \<Rightarrow>
                   let s1 = s\<lparr>Coarse_initial := (p_ntasks_initial P > 1),
                              TaskList := c_alloc K W_TaskList,
                              Coarse_Work := c_alloc K W_Coarse_Work,
                              Fine_slice := (max_bjnz > 0 \<and> c_alloc K W_Fine_slice),
                              Bflops2 := (max_bjnz > 0 \<and> c_alloc K W_Bflops2)\<rparr>
                   in if \<not> TaskList s1 \<or> \<not> Coarse_Work s1
                           \<or> (max_bjnz > 0 \<and> (\<not> Fine_slice s1 \<or> \<not> Bflops2 s1))
                      then Some (GrB_OUT_OF_MEMORY, GB_FREE_ALL s1)
                      else (case create_tasks P (c_Bflops2_init K) of
                              None \<Rightarrow> None
                            | Some TL \<Rightarrow>
                                Some (saxpy3_hash K P d Mask_struct (ncoarse + nfine) nfine
                                        nthreads TL C s1))))"

text \<open>
  The whole function. \<open>P\<close> holds what is read of \<open>A\<close>, \<open>B\<close> and the context; the
  header of \<open>C\<close> is made with \<open>Cp\<close> cleared, and \<open>Cp\<close> is the workspace \<open>Bflops\<close>
  of the flop count.
  \<^verbatim>\<open>
  (*mask_applied) = false ;
  (*Chandle) = NULL ;
  #if GB_HAS_MKL_GRAPH
  if (use_mkl)
  {   info = GB_AxB_saxpy3_mkl (Chandle, M, ..., mask_applied, Context) ;
      if (info != GrB_NO_VALUE) return (info) ; }
  #endif
  info = GB_new (Chandle, ...) ;
  if (info != GrB_SUCCESS) { GB_FREE_ALL ; return (info) ; }
  GB_OK (GB_AxB_saxpy3_flopcount (&Mwork, Bflops, M, Mask_comp, A, B, Context)) ;
  \<close>
\<close>

definition saxpy3_init :: "'c saxpy3_state" where
  "saxpy3_init = \<lparr>Chandle = None, mask_applied = False, Bflops2 = False, Coarse_Work = False,
     Coarse_initial = False, Fine_slice = False, TaskList = False, Hi_all = False,
     Hf_all = False, Hx_all = False\<rparr>"

definition saxpy3_main ::
  "('m, 'c) callees \<Rightarrow> part_params \<Rightarrow> 'm option \<Rightarrow> bool \<Rightarrow> bool \<Rightarrow> GrB_Desc_Value
     \<Rightarrow> (GrB_Info \<times> 'c saxpy3_state) option" where
  "saxpy3_main K P M_input Mask_comp_input Mask_struct AxB_method =
     (case c_GB_new K of
        (info, C) \<Rightarrow>
          if info \<noteq> GrB_SUCCESS then Some (info, GB_FREE_ALL saxpy3_init)
          else let s = saxpy3_init\<lparr>Chandle := Some C\<rparr>
               in (case c_flopcount K M_input Mask_comp_input (\<lambda>kk. 0) of
                     (finfo, Mwork, Bflops) \<Rightarrow>
                       if finfo \<noteq> GrB_SUCCESS then Some (finfo, GB_FREE_ALL s)
                       else (case saxpy3_mask_decision (c_packed K) (c_flopcount K) M_input
                                    Mask_comp_input AxB_method Mwork Bflops (p_cvlen P) (p_bvdim P)
                                    (p_bnvec P) of
                               Inl info2 \<Rightarrow> Some (info2, GB_FREE_ALL s)
                             | Inr d \<Rightarrow> saxpy3_tasks K P d Mask_struct C s)))"

definition GB_AxB_saxpy3 ::
  "('m, 'c) callees \<Rightarrow> part_params \<Rightarrow> 'm option \<Rightarrow> bool \<Rightarrow> bool \<Rightarrow> GrB_Desc_Value
     \<Rightarrow> (GrB_Info \<times> 'c saxpy3_state) option" where
  "GB_AxB_saxpy3 K P M_input Mask_comp_input Mask_struct AxB_method =
     (case c_mkl K of
        None \<Rightarrow> saxpy3_main K P M_input Mask_comp_input Mask_struct AxB_method
      | Some (info, C, applied) \<Rightarrow>
          if info \<noteq> GrB_NO_VALUE
          then Some (info, saxpy3_init\<lparr>Chandle := C, mask_applied := applied\<rparr>)
          else saxpy3_main K P M_input Mask_comp_input Mask_struct AxB_method)"

subsection \<open>Observations on the result\<close>

text \<open>No workspace pointer holds a block.\<close>

definition all_freed :: "'c saxpy3_state \<Rightarrow> bool" where
  "all_freed s \<longleftrightarrow> \<not> Bflops2 s \<and> \<not> Coarse_Work s \<and> \<not> Coarse_initial s \<and> \<not> Fine_slice s
     \<and> \<not> TaskList s \<and> \<not> Hi_all s \<and> \<not> Hf_all s \<and> \<not> Hx_all s"

text \<open>The statuses that \<^verbatim>\<open>GB_hypermatrix_prune\<close> and the flop count can report.\<close>

definition prune_status :: "('m, 'c) callees \<Rightarrow> GrB_Info set" where
  "prune_status K = range (\<lambda>C. fst (c_prune K C))"

definition flop_status :: "('m, 'c) callees \<Rightarrow> GrB_Info set" where
  "flop_status K = range (\<lambda>(M, Mask_comp, Bflops). fst (c_flopcount K M Mask_comp Bflops))"

text \<open>MKL is not used, or it does not support the semiring (\<^verbatim>\<open>GrB_NO_VALUE\<close>).\<close>

definition mkl_declines :: "('m, 'c) callees \<Rightarrow> bool" where
  "mkl_declines K = (case c_mkl K of None \<Rightarrow> True | Some (info, C, applied) \<Rightarrow> info = GrB_NO_VALUE)"

subsection \<open>Example inputs\<close>

text \<open>
  Concrete helpers, inputs and callees on which the theorems are run: \<open>B\<close> has one
  vector with five entries and \<open>C\<close> has vectors of length 10; the mask, when there is
  one, is packed; a kernel reports the status it is given and counts its successful
  runs in the matrix.
\<close>

definition ex_helpers :: helpers where
  "ex_helpers =
     \<lparr>GB_nthreads = (\<lambda>work chunk nthreads_max.
          max 1 (min nthreads_max \<lfloor>max work 1 / max chunk 1\<rfloor>)),
      GB_PARTITION = (\<lambda>n tid nth.
          ((if tid = 0 then 0 else (tid * n) div nth),
           (if tid = nth - 1 then n else ((tid + 1) * n) div nth))),
      GB_cumsum = (\<lambda>count n k.
          if 0 \<le> k \<and> k \<le> n then sum_list (map count [0..k - 1]) else count k),
      GB_pslice = (\<lambda>Work n ntasks t.
          if t \<le> 0 then 0 else if ntasks \<le> t then n else (t * n) div ntasks)\<rparr>"

definition ex_flopcount :: "unit option \<Rightarrow> bool \<Rightarrow> (int \<Rightarrow> int) \<Rightarrow> GrB_Info \<times> int \<times> (int \<Rightarrow> int)" where
  "ex_flopcount M Mask_comp Bflops =
     (GrB_SUCCESS, (if M = None then 0 else 100),
      (\<lambda>k. if k = 1 then (if M = None then 5 else 105) else 0))"

definition ex_Bflops :: "int \<Rightarrow> int" where
  "ex_Bflops k = (if k = 1 then 105 else 0)"

definition ex_packed :: "unit \<Rightarrow> bool" where
  "ex_packed m = True"

definition ex_Bp :: "int \<Rightarrow> int" where
  "ex_Bp k = (if k = 1 then 5 else 0)"

definition ex_params :: part_params where
  "ex_params =
     \<lparr>p_helpers = ex_helpers, p_Bflops = (\<lambda>k. 0), p_Bp = Some ex_Bp, p_bvlen = 10, p_bnvec = 1,
      p_bvdim = 1, p_cvlen = 10, p_csize = 8, p_is_any_pair_semiring = False,
      p_GBI_Bi = (\<lambda>pB. pB), p_GBB_Bb = (\<lambda>pB. True), p_A_nnz = (\<lambda>k. 1), p_chunk = 65536,
      p_nthreads_max = 4, p_AxB_method = GxB_DEFAULT, p_ntasks_initial = 0,
      p_target_task_size = 0, p_target_fine_size = 0, p_Coarse_initial = (\<lambda>k. 0)\<rparr>"

definition ex_kernel :: "GrB_Info \<Rightarrow> unit kernel_args \<Rightarrow> nat \<Rightarrow> GrB_Info \<times> nat" where
  "ex_kernel info args C = (info, if info = GrB_SUCCESS then C + 1 else C)"

definition ex_callees :: "GrB_Info \<Rightarrow> GrB_Info \<Rightarrow> (workspace \<Rightarrow> bool) \<Rightarrow> (unit, nat) callees" where
  "ex_callees winfo ginfo alloc =
     \<lparr>c_mkl = None, c_GB_new = (GrB_SUCCESS, 0), c_packed = ex_packed,
      c_flopcount = ex_flopcount, c_alloc = alloc, c_Bflops2_init = (\<lambda>k. 0),
      c_symbolic = (\<lambda>args C. C), c_builtin_semiring = True,
      c_worker = Some (ex_kernel winfo), c_generic = ex_kernel ginfo,
      c_prune = (\<lambda>C. (GrB_SUCCESS, C))\<rparr>"

text \<open>
  The entry that \<^verbatim>\<open>GB_create_coarse_task\<close> writes; the size of its table exists since
  \<open>flmax\<close> is at least 1.
\<close>

definition coarse_task :: "part_params \<Rightarrow> int \<Rightarrow> int \<Rightarrow> int \<Rightarrow> real \<Rightarrow> int \<Rightarrow> GB_saxpy3task_struct" where
  "coarse_task P kfirst klast taskid chunk nthreads_max =
     \<lparr>start = kfirst, end_entry = klast, vector = - 1,
      hsize = the (GB_hash_table_size
                (coarse_flmax (p_helpers P) (p_Bflops P) kfirst klast chunk nthreads_max)
                (p_cvlen P) (p_AxB_method P)),
      Hi = None, Hf = None, Hx = None, my_cjnz = 0,
      flops = p_Bflops P (klast + 1) - p_Bflops P kfirst,
      leader = taskid, team_size = 1\<rparr>"

text \<open>The team of a costly vector, as a list, and the workspace it leaves.\<close>

definition team_Bflops2 :: "part_params \<Rightarrow> int \<Rightarrow> (int \<Rightarrow> int) \<Rightarrow> (int \<Rightarrow> int)" where
  "team_Bflops2 P kk B2 = GB_cumsum (p_helpers P) (entry_flops P kk B2) (bjnz_of P kk)"

definition team_tasks :: "part_params \<Rightarrow> int \<Rightarrow> (int \<Rightarrow> int) \<Rightarrow> int \<Rightarrow> GB_saxpy3task_struct list" where
  "team_tasks P kk B2 ldr =
     map (fine_task P kk (team_Bflops2 P kk B2)
            (GB_pslice (p_helpers P) (team_Bflops2 P kk B2) (bjnz_of P kk) (team_size_of P kk))
            (the (GB_hash_table_size (jflops_of P kk) (p_cvlen P) (p_AxB_method P))) ldr)
       [0..team_size_of P kk - 1]"

text \<open>Writing a list of tasks from index \<open>i\<close> on.\<close>

fun write_tasks :: "GB_saxpy3task_struct list \<Rightarrow> nat \<Rightarrow> GB_saxpy3task_struct list \<Rightarrow> GB_saxpy3task_struct list" where
  "write_tasks TL i [] = TL"
| "write_tasks TL i (t # ts) = write_tasks (TL [i := t]) (Suc i) ts"

text \<open>The tasks of the second pass as two lists, fine and coarse, in the order of their creation\<close>

definition emit_vector ::
  "part_params \<Rightarrow> int \<Rightarrow> int
    \<Rightarrow> int \<times> GB_saxpy3task_struct list \<times> GB_saxpy3task_struct list \<times> (int \<Rightarrow> int)
    \<Rightarrow> int \<times> GB_saxpy3task_struct list \<times> GB_saxpy3task_struct list \<times> (int \<Rightarrow> int)" where
  "emit_vector P NF kk st =
     (case st of (kcs, F, Cs, B2) \<Rightarrow>
        if costly_vector P kk
        then (kk + 1,
              F @ team_tasks P kk B2 (int (length F)),
              (if kcs < kk
               then Cs @ [coarse_task P kcs (kk - 1) (NF + int (length Cs)) (p_chunk P) (p_nthreads_max P)]
               else Cs),
              team_Bflops2 P kk B2)
        else st)"

definition emit_chunk ::
  "part_params \<Rightarrow> int \<Rightarrow> int
    \<Rightarrow> GB_saxpy3task_struct list \<times> GB_saxpy3task_struct list \<times> (int \<Rightarrow> int)
    \<Rightarrow> GB_saxpy3task_struct list \<times> GB_saxpy3task_struct list \<times> (int \<Rightarrow> int)" where
  "emit_chunk P NF taskid st =
     (case st of (F, Cs, B2) \<Rightarrow>
        let kfirst = p_Coarse_initial P taskid;
            klast = p_Coarse_initial P (taskid + 1)
        in if klast - kfirst = 0 then st
           else if chunk_too_costly P kfirst klast
           then (case fold (emit_vector P NF) [kfirst..klast - 1] (kfirst, F, Cs, B2) of
                   (kcs, F', Cs', B2') \<Rightarrow>
                     (F',
                      (if kcs < klast
                       then Cs' @ [coarse_task P kcs (klast - 1) (NF + int (length Cs')) (p_chunk P)
                                     (p_nthreads_max P)]
                       else Cs'),
                      B2'))
           else (F, Cs @ [coarse_task P kfirst (klast - 1) (NF + int (length Cs)) (p_chunk P)
                            (p_nthreads_max P)], B2))"

definition emit_tasks ::
  "part_params \<Rightarrow> int \<Rightarrow> (int \<Rightarrow> int)
    \<Rightarrow> GB_saxpy3task_struct list \<times> GB_saxpy3task_struct list \<times> (int \<Rightarrow> int)" where
  "emit_tasks P NF B2 = fold (emit_chunk P NF) [0..p_ntasks_initial P - 1] ([], [], B2)"

text \<open>
  The state of the second pass holds the two lists: the fine tasks from index 0 and
  the coarse tasks from index \<open>NF\<close>, as long as the fine tasks stay below \<open>NF\<close>.
\<close>

definition holds_tasks ::
  "int \<Rightarrow> nat \<Rightarrow> pstate \<Rightarrow> GB_saxpy3task_struct list \<times> GB_saxpy3task_struct list \<times> (int \<Rightarrow> int) \<Rightarrow> bool" where
  "holds_tasks NF L s st =
     (case st of (F, Cs, B2) \<Rightarrow>
        ps_nf s = int (length F) \<and> ps_nc s = NF + int (length Cs) \<and> ps_Bflops2 s = B2
        \<and> length (ps_TaskList s) = L
        \<and> (int (length F) \<le> NF \<longrightarrow>
              (\<forall>i < length F. ps_TaskList s ! i = F ! i)
            \<and> (\<forall>i < length Cs. nat NF + i < L \<longrightarrow> ps_TaskList s ! (nat NF + i) = Cs ! i)))"

text \<open>The counters of the first pass are the lengths of the two lists.\<close>

definition counts_agree ::
  "int \<times> int \<times> int \<times> int
   \<Rightarrow> int \<times> GB_saxpy3task_struct list \<times> GB_saxpy3task_struct list \<times> (int \<Rightarrow> int) \<Rightarrow> bool" where
  "counts_agree c st =
     (case (c, st) of ((kcs, ncoarse, nfine, max_bjnz), (kcs', F, Cs, B2)) \<Rightarrow>
        kcs = kcs' \<and> ncoarse = int (length Cs) \<and> nfine = int (length F))"

subsection \<open>What the partitioner produces\<close>

text \<open>
  The vectors that are split, the ranges of vectors that form coarse tasks, and the
  tasks made from them.
\<close>

fun scan_ranges :: "(int \<Rightarrow> bool) \<Rightarrow> int \<Rightarrow> int list \<Rightarrow> int \<times> (int \<times> int) list" where
  "scan_ranges c kcs [] = (kcs, [])"
| "scan_ranges c kcs (kk # ks) =
     (if c kk
      then (case scan_ranges c (kk + 1) ks of
              (kcs', rs) \<Rightarrow> (kcs', (if kcs < kk then [(kcs, kk - 1)] else []) @ rs))
      else scan_ranges c kcs ks)"

definition chunk_ranges :: "(int \<Rightarrow> bool) \<Rightarrow> int \<Rightarrow> int \<Rightarrow> (int \<times> int) list" where
  "chunk_ranges c kfirst klast =
     (case scan_ranges c kfirst [kfirst..klast - 1] of
        (kcs, rs) \<Rightarrow> rs @ (if kcs < klast then [(kcs, klast - 1)] else []))"

definition chunk_vectors :: "part_params \<Rightarrow> int \<Rightarrow> int list" where
  "chunk_vectors P taskid =
     (let kfirst = p_Coarse_initial P taskid; klast = p_Coarse_initial P (taskid + 1)
      in if klast - kfirst \<noteq> 0 \<and> chunk_too_costly P kfirst klast
         then filter (costly_vector P) [kfirst..klast - 1] else [])"

definition chunk_coarse :: "part_params \<Rightarrow> int \<Rightarrow> (int \<times> int) list" where
  "chunk_coarse P taskid =
     (let kfirst = p_Coarse_initial P taskid; klast = p_Coarse_initial P (taskid + 1)
      in if klast - kfirst = 0 then []
         else if chunk_too_costly P kfirst klast then chunk_ranges (costly_vector P) kfirst klast
         else [(kfirst, klast - 1)])"

definition split_vectors :: "part_params \<Rightarrow> int list" where
  "split_vectors P = concat (map (chunk_vectors P) [0..p_ntasks_initial P - 1])"

definition coarse_ranges :: "part_params \<Rightarrow> (int \<times> int) list" where
  "coarse_ranges P = concat (map (chunk_coarse P) [0..p_ntasks_initial P - 1])"







text \<open>
  A second example: six vectors of \<open>B\<close> with 5, 13, 12, 5, 3 and 2 flops, two threads and
  \<open>chunk = 1\<close>, so four initial coarse tasks with the target size 10; the slices are
  \<open>0, 1, 3, 3, 6\<close>, the third one empty.
\<close>

definition ex2_Bflops :: "int \<Rightarrow> int" where
  "ex2_Bflops k = (if k \<le> 0 then 0 else if 6 \<le> k then 40 else [0, 5, 18, 30, 35, 38, 40] ! nat k)"

definition ex2_helpers :: helpers where
  "ex2_helpers = ex_helpers\<lparr>GB_pslice := (\<lambda>Work n ntasks t.
      if n = 6 \<and> ntasks = 4 then (if t \<le> 0 then 0 else if 4 \<le> t then 6 else [0, 1, 3, 3, 6] ! nat t)
      else GB_pslice ex_helpers Work n ntasks t)\<rparr>"

definition ex2_params :: part_params where
  "ex2_params = ex_params\<lparr>p_helpers := ex2_helpers, p_Bp := Some ex2_Bflops, p_bvlen := 40,
     p_bnvec := 6, p_bvdim := 6, p_cvlen := 2000, p_chunk := 1, p_nthreads_max := 2\<rparr>"

definition ex2_tasks :: "GB_saxpy3task_struct list" where
  "ex2_tasks = the (create_tasks (partition_params ex2_params ex2_Bflops 40 GxB_DEFAULT) (\<lambda>k. 0))"

text \<open>The parameters and the tasks of the second example.\<close>

definition ex2_part :: part_params where
  "ex2_part = partition_params ex2_params ex2_Bflops 40 GxB_DEFAULT"

subsection \<open>Sparse matrices, semirings and the reference product\<close>

text \<open>
  Modelled from the spec: the storage of a sparse matrix is outside
  \<^verbatim>\<open>GB_AxB_saxpy3.c\<close>. A matrix in sparse format holds vectors of entries through
  compressed pointers \<open>p\<close> into the flat arrays of row indices \<open>i\<close> and values \<open>x\<close>;
  pending updates and zombies are not represented.
\<close>

record 'a csc =
  csc_vlen :: nat
  csc_vdim :: nat
  csc_p :: "nat list"
  csc_i :: "nat list"
  csc_x :: "'a list"

definition entry_at :: "'a csc \<Rightarrow> nat \<Rightarrow> nat \<times> 'a" where
  "entry_at M q = (csc_i M ! q, csc_x M ! q)"

definition col_positions :: "'a csc \<Rightarrow> nat \<Rightarrow> nat list" where
  "col_positions M k = [csc_p M ! k..<csc_p M ! Suc k]"

definition col_entries :: "'a csc \<Rightarrow> nat \<Rightarrow> (nat \<times> 'a) list" where
  "col_entries M k = map (entry_at M) (col_positions M k)"

text \<open>The entry in row \<open>r\<close> of vector \<open>k\<close>, if present.\<close>

definition lookup :: "'a csc \<Rightarrow> nat \<Rightarrow> nat \<Rightarrow> 'a option" where
  "lookup M r k = map_of (col_entries M k) r"

text \<open>Every vector holds distinct row indices below the vector length.\<close>

definition cols_ok :: "'a csc \<Rightarrow> bool" where
  "cols_ok M \<longleftrightarrow>
     (\<forall>k < csc_vdim M. distinct (map fst (col_entries M k))
        \<and> (\<forall>e \<in> set (col_entries M k). fst e < csc_vlen M))"

text \<open>
  The pointers are cumulative: they start at 0, never decrease, and end at the number
  of entries.
\<close>

definition pointers_ok :: "'a csc \<Rightarrow> bool" where
  "pointers_ok M \<longleftrightarrow>
     length (csc_p M) = Suc (csc_vdim M) \<and> csc_p M ! 0 = 0
     \<and> (\<forall>k < csc_vdim M. csc_p M ! k \<le> csc_p M ! Suc k)
     \<and> csc_p M ! csc_vdim M = length (csc_i M) \<and> length (csc_x M) = length (csc_i M)"

text \<open>The row indices of every vector ascend.\<close>

definition cols_sorted :: "'a csc \<Rightarrow> bool" where
  "cols_sorted M \<longleftrightarrow> (\<forall>k < csc_vdim M. sorted_wrt (<) (map fst (col_entries M k)))"

text \<open>
  Modelled from the spec: the mask. An entry of \<open>M\<close> counts when it is present and,
  for a valued mask, true; \<open>Mask_comp\<close> complements the mask.
\<close>

definition mask_allows :: "bool csc option \<Rightarrow> bool \<Rightarrow> bool \<Rightarrow> nat \<Rightarrow> nat \<Rightarrow> bool" where
  "mask_allows M Mask_comp Mask_struct j i =
     (case M of
        None \<Rightarrow> True
      | Some m \<Rightarrow>
          let mij = (case lookup m i j of None \<Rightarrow> False | Some v \<Rightarrow> Mask_struct \<or> v)
          in if Mask_comp then \<not> mij else mij)"

text \<open>Adding a product \<open>t\<close> to an entry that may not be there yet.\<close>

definition accum :: "('z \<Rightarrow> 'z \<Rightarrow> 'z) \<Rightarrow> 'z \<Rightarrow> 'z option \<Rightarrow> 'z option" where
  "accum add t acc = Some (case acc of None \<Rightarrow> t | Some v \<Rightarrow> add v t)"

text \<open>
  Modelled from the spec: the naive triple loop. Entry \<open>(i, j)\<close> of \<open>A * B\<close> folds
  the products \<open>A(i,t) * B(t,j)\<close> over the \<open>t\<close>, ascending, where both are present.
\<close>

definition ref_entry ::
  "('z \<Rightarrow> 'z \<Rightarrow> 'z) \<Rightarrow> ('a \<Rightarrow> 'b \<Rightarrow> 'z) \<Rightarrow> 'a csc \<Rightarrow> 'b csc \<Rightarrow> nat \<Rightarrow> nat \<Rightarrow> 'z option" where
  "ref_entry add mul A B i j =
     fold (\<lambda>t acc. case (lookup A i t, lookup B t j) of
                      (Some a, Some b) \<Rightarrow> accum add (mul a b) acc
                    | _ \<Rightarrow> acc)
       [0..<csc_vdim A] None"

subsection \<open>The kernels of the symbolic and numeric phases\<close>

text \<open>
  Modelled from the spec: the kernels \<^verbatim>\<open>GB_AxB_saxpy3_symbolic\<close>,
  \<^verbatim>\<open>GB_AxB_saxpy3_generic\<close> and the template of the workers are not under src/. For
  an entry \<open>B(k,j)\<close> at position \<open>q\<close> and every entry \<open>A(i,k)\<close> that the mask allows,
  the kernel lands the product \<open>A(i,k) * B(k,j)\<close> at row \<open>i\<close>.
\<close>

definition contribs ::
  "('a \<Rightarrow> 'b \<Rightarrow> 'z) \<Rightarrow> 'a csc \<Rightarrow> 'b csc \<Rightarrow> (nat \<Rightarrow> bool) \<Rightarrow> nat list \<Rightarrow> (nat \<times> 'z) list" where
  "contribs mul A B allow ps =
     concat (map (\<lambda>q. case entry_at B q of
                        (k, b) \<Rightarrow> map (\<lambda>(i, a). (i, mul a b))
                                    (filter (\<lambda>(i, a). allow i) (col_entries A k))) ps)"

text \<open>
  Gustavson's method: the slot of row \<open>i\<close> is \<open>i\<close>. \<open>Hf i = mark\<close> says that the slot
  is taken; \<open>Hx i\<close> is its value.
\<close>

definition gus_update ::
  "('z \<Rightarrow> 'z \<Rightarrow> 'z) \<Rightarrow> nat \<Rightarrow> nat \<times> 'z \<Rightarrow> (nat \<Rightarrow> nat) \<times> (nat \<Rightarrow> 'z) \<Rightarrow> (nat \<Rightarrow> nat) \<times> (nat \<Rightarrow> 'z)" where
  "gus_update add mark it T =
     (case (it, T) of ((i, t), (hf, hx)) \<Rightarrow>
        if hf i = mark then (hf, hx (i := add (hx i) t))
        else (hf (i := mark), hx (i := t)))"

definition gus_gather :: "nat \<Rightarrow> nat \<Rightarrow> (nat \<Rightarrow> nat) \<times> (nat \<Rightarrow> 'z) \<Rightarrow> (nat \<times> 'z) list" where
  "gus_gather cvlen mark T =
     (case T of (hf, hx) \<Rightarrow> map (\<lambda>i. (i, hx i)) (filter (\<lambda>i. hf i = mark) [0..<cvlen]))"

text \<open>
  The Hash method: a table of \<open>h\<close> slots with open addressing. The probe starts at
  the hash of the row index and steps by \<open>(hash + 1) & (h - 1)\<close> past the slots taken
  by other rows; it has visited every slot after \<open>h\<close> steps, and the result is \<open>None\<close>
  when it has not come to an end by then.
\<close>

fun hash_probe :: "nat \<Rightarrow> nat \<Rightarrow> nat \<Rightarrow> nat \<Rightarrow> nat \<Rightarrow> (nat \<Rightarrow> nat) \<Rightarrow> (nat \<Rightarrow> nat) \<Rightarrow> nat option" where
  "hash_probe 0 h s i mark hf hi = None"
| "hash_probe (Suc n) h s i mark hf hi =
     (if hf s = mark \<and> hi s \<noteq> i then hash_probe n h (Suc s mod h) i mark hf hi else Some s)"

definition hash_update ::
  "(nat \<Rightarrow> nat) \<Rightarrow> ('z \<Rightarrow> 'z \<Rightarrow> 'z) \<Rightarrow> nat \<Rightarrow> nat \<Rightarrow> nat \<times> 'z
    \<Rightarrow> (nat \<Rightarrow> nat) \<times> (nat \<Rightarrow> nat) \<times> (nat \<Rightarrow> 'z)
    \<Rightarrow> ((nat \<Rightarrow> nat) \<times> (nat \<Rightarrow> nat) \<times> (nat \<Rightarrow> 'z)) option" where
  "hash_update hashf add h mark it T =
     (case (it, T) of ((i, t), (hf, hi, hx)) \<Rightarrow>
        (case hash_probe h h (hashf i mod h) i mark hf hi of
           None \<Rightarrow> None
         | Some s \<Rightarrow>
             Some (if hf s = mark then (hf, hi, hx (s := add (hx s) t))
                   else (hf (s := mark), hi (s := i), hx (s := t)))))"

definition hash_step ::
  "(nat \<Rightarrow> nat) \<Rightarrow> ('z \<Rightarrow> 'z \<Rightarrow> 'z) \<Rightarrow> nat \<Rightarrow> nat \<Rightarrow> nat \<times> 'z
    \<Rightarrow> ((nat \<Rightarrow> nat) \<times> (nat \<Rightarrow> nat) \<times> (nat \<Rightarrow> 'z)) option
    \<Rightarrow> ((nat \<Rightarrow> nat) \<times> (nat \<Rightarrow> nat) \<times> (nat \<Rightarrow> 'z)) option" where
  "hash_step hashf add h mark it r =
     (case r of None \<Rightarrow> None | Some T \<Rightarrow> hash_update hashf add h mark it T)"

definition hash_items :: "nat \<Rightarrow> nat \<Rightarrow> (nat \<Rightarrow> nat) \<times> (nat \<Rightarrow> nat) \<times> (nat \<Rightarrow> 'z) \<Rightarrow> (nat \<times> 'z) list" where
  "hash_items h mark T =
     (case T of (hf, hi, hx) \<Rightarrow> map (\<lambda>s. (hi s, hx s)) (filter (\<lambda>s. hf s = mark) [0..<h]))"

text \<open>The gather of the Hash method sorts the entries by row index.\<close>

definition hash_gather :: "nat \<Rightarrow> nat \<Rightarrow> (nat \<Rightarrow> nat) \<times> (nat \<Rightarrow> nat) \<times> (nat \<Rightarrow> 'z) \<Rightarrow> (nat \<times> 'z) list" where
  "hash_gather h mark T = sort_key fst (hash_items h mark T)"

text \<open>
  The workspace of a task: with \<open>hsize = cvlen\<close> the dense arrays of Gustavson's
  method, otherwise a hash table of \<open>hsize\<close> slots. \<open>Hf\<close> is cleared; \<open>Hi\<close> and \<open>Hx\<close>
  hold whatever the allocation left.
\<close>

datatype 'z workspace_table =
    Gustavson_table "nat \<Rightarrow> nat" "nat \<Rightarrow> 'z"
  | Hash_table nat "nat \<Rightarrow> nat" "nat \<Rightarrow> nat" "nat \<Rightarrow> 'z"

definition new_table :: "(nat \<Rightarrow> nat) \<Rightarrow> (nat \<Rightarrow> 'z) \<Rightarrow> nat \<Rightarrow> int \<Rightarrow> 'z workspace_table" where
  "new_table Hi0 Hx0 cvlen h =
     (if h = int cvlen then Gustavson_table (\<lambda>s. 0) Hx0 else Hash_table (nat h) (\<lambda>s. 0) Hi0 Hx0)"

text \<open>
  One vector \<open>C(:,j)\<close> from its products \<open>cs\<close>, with the mark of this use of the
  table: all products are added, then the entries are gathered in ascending order.
\<close>

definition table_column ::
  "(nat \<Rightarrow> nat) \<Rightarrow> ('z \<Rightarrow> 'z \<Rightarrow> 'z) \<Rightarrow> nat \<Rightarrow> nat \<Rightarrow> (nat \<times> 'z) list \<Rightarrow> 'z workspace_table
    \<Rightarrow> ('z workspace_table \<times> (nat \<times> 'z) list) option" where
  "table_column hashf add cvlen mark cs T =
     (case T of
        Gustavson_table hf hx \<Rightarrow>
          (case fold (gus_update add mark) cs (hf, hx) of
             (hf', hx') \<Rightarrow> Some (Gustavson_table hf' hx', gus_gather cvlen mark (hf', hx')))
      | Hash_table h hf hi hx \<Rightarrow>
          (case fold (hash_step hashf add h mark) cs (Some (hf, hi, hx)) of
             None \<Rightarrow> None
           | Some (hf', hi', hx') \<Rightarrow>
               Some (Hash_table h hf' hi' hx', hash_gather h mark (hf', hi', hx'))))"

text \<open>
  What fixes a run of the kernels: the hash function \<^verbatim>\<open>GB_HASHF\<close>, the monoid and the
  multiplier of the semiring, the inputs, the mask (\<open>ke_allow j i\<close>: the mask lets
  \<open>C(i,j)\<close> through) and the content of freshly allocated index and value arrays.
\<close>

record ('a, 'b, 'z) kernel_env =
  ke_hashf :: "nat \<Rightarrow> nat"
  ke_add :: "'z \<Rightarrow> 'z \<Rightarrow> 'z"
  ke_mult :: "'a \<Rightarrow> 'b \<Rightarrow> 'z"
  ke_A :: "'a csc"
  ke_B :: "'b csc"
  ke_allow :: "nat \<Rightarrow> nat \<Rightarrow> bool"
  ke_Hi0 :: "nat \<Rightarrow> nat"
  ke_Hx0 :: "nat \<Rightarrow> 'z"

text \<open>The products for \<open>C(:,j)\<close> from the entries of \<open>B\<close> at the positions \<open>ps\<close>.\<close>

definition task_contribs :: "('a, 'b, 'z) kernel_env \<Rightarrow> nat \<Rightarrow> nat list \<Rightarrow> (nat \<times> 'z) list" where
  "task_contribs E j ps = contribs (ke_mult E) (ke_A E) (ke_B E) (ke_allow E j) ps"

text \<open>
  A coarse task computes the vectors \<open>start..end\<close> one after the other in its own
  table, with a new mark for each. The state is the next mark, the table and the
  vectors computed so far.
\<close>

definition coarse_step ::
  "('a, 'b, 'z) kernel_env \<Rightarrow> int
    \<Rightarrow> (nat \<times> 'z workspace_table \<times> (nat \<times> (nat \<times> 'z) list) list) option
    \<Rightarrow> (nat \<times> 'z workspace_table \<times> (nat \<times> (nat \<times> 'z) list) list) option" where
  "coarse_step E kk r =
     (case r of
        None \<Rightarrow> None
      | Some (mark, T, out) \<Rightarrow>
          (case table_column (ke_hashf E) (ke_add E) (csc_vlen (ke_A E)) mark
                  (task_contribs E (nat kk) (col_positions (ke_B E) (nat kk))) T of
             None \<Rightarrow> None
           | Some (T', c) \<Rightarrow> Some (Suc mark, T', out @ [(nat kk, c)])))"

definition coarse_task_columns ::
  "('a, 'b, 'z) kernel_env \<Rightarrow> GB_saxpy3task_struct \<Rightarrow> (nat \<times> (nat \<times> 'z) list) list option" where
  "coarse_task_columns E t =
     map_option (\<lambda>r. snd (snd r))
       (fold (coarse_step E) [start t..end_entry t]
          (Some (1, new_table (ke_Hi0 E) (ke_Hx0 E) (csc_vlen (ke_A E)) (hsize t), [])))"

text \<open>
  The fine tasks of a team share the table of their leader: each adds the products of
  its entries \<open>start..end\<close> of \<open>B(:,j)\<close>, and the vector is gathered once.
\<close>

definition team_positions :: "GB_saxpy3task_struct list \<Rightarrow> nat \<Rightarrow> nat \<Rightarrow> nat list" where
  "team_positions TL nfine l =
     concat (map (\<lambda>t. map nat [start t..end_entry t])
               (filter (\<lambda>t. leader t = int l) (take nfine TL)))"

definition fine_team_columns ::
  "('a, 'b, 'z) kernel_env \<Rightarrow> GB_saxpy3task_struct list \<Rightarrow> nat \<Rightarrow> nat
    \<Rightarrow> (nat \<times> (nat \<times> 'z) list) list option" where
  "fine_team_columns E TL nfine l =
     (let j = nat (vector (TL ! l))
      in map_option (\<lambda>r. [(j, snd r)])
           (table_column (ke_hashf E) (ke_add E) (csc_vlen (ke_A E)) 1
              (task_contribs E j (team_positions TL nfine l))
              (new_table (ke_Hi0 E) (ke_Hx0 E) (csc_vlen (ke_A E)) (hsize (TL ! l)))))"

text \<open>All tasks: the teams of the fine tasks \<open>0..nfine-1\<close>, then the coarse tasks.\<close>

definition saxpy3_columns ::
  "('a, 'b, 'z) kernel_env \<Rightarrow> GB_saxpy3task_struct list \<Rightarrow> nat
    \<Rightarrow> (nat \<times> (nat \<times> 'z) list) list option" where
  "saxpy3_columns E TL nfine =
     map_option concat
       (those (map (fine_team_columns E TL nfine)
                 (filter (\<lambda>l. leader (TL ! l) = int l) [0..<nfine])
               @ map (coarse_task_columns E) (drop nfine TL)))"

definition column_of :: "(nat \<times> (nat \<times> 'z) list) list \<Rightarrow> nat \<Rightarrow> (nat \<times> 'z) list" where
  "column_of cols j = (case map_of cols j of None \<Rightarrow> [] | Some c \<Rightarrow> c)"

text \<open>The cumulative sum of the entry counts, from \<open>s\<close>.\<close>

fun cumsum_from :: "nat \<Rightarrow> nat list \<Rightarrow> nat list" where
  "cumsum_from s [] = [s]"
| "cumsum_from s (n # ns) = s # cumsum_from (s + n) ns"

text \<open>Writing the elements \<open>xs\<close> into an array from position \<open>p\<close> on.\<close>

fun write_from :: "nat \<Rightarrow> 'a list \<Rightarrow> 'a list \<Rightarrow> 'a list" where
  "write_from p [] ys = ys"
| "write_from p (x # xs) ys = write_from (Suc p) xs (ys [p := x])"

text \<open>
  The symbolic phase finds the pattern of every vector, without values, and sets the
  pointers of \<open>C\<close> to the cumulative sum of the counts.
\<close>

definition symbolic_env :: "('a, 'b, 'z) kernel_env \<Rightarrow> ('a, 'b, unit) kernel_env" where
  "symbolic_env E =
     \<lparr>ke_hashf = ke_hashf E, ke_add = (\<lambda>x y. ()), ke_mult = (\<lambda>a b. ()), ke_A = ke_A E,
      ke_B = ke_B E, ke_allow = ke_allow E, ke_Hi0 = ke_Hi0 E, ke_Hx0 = (\<lambda>s. ())\<rparr>"

definition GB_AxB_saxpy3_symbolic ::
  "('a, 'b, 'z) kernel_env \<Rightarrow> GB_saxpy3task_struct list \<Rightarrow> nat \<Rightarrow> 'z csc \<Rightarrow> 'z csc option" where
  "GB_AxB_saxpy3_symbolic E TL nfine C =
     map_option (\<lambda>cols. C\<lparr>csc_p := cumsum_from 0
                              (map (\<lambda>j. length (column_of cols j)) [0..<csc_vdim C])\<rparr>)
       (saxpy3_columns (symbolic_env E) TL nfine)"

text \<open>
  The numeric phase allocates the entries of \<open>C\<close>, as many as the last pointer says,
  computes the vectors and writes each one from its pointer on.
\<close>

definition saxpy3_numeric_template ::
  "('a, 'b, 'z) kernel_env \<Rightarrow> GB_saxpy3task_struct list \<Rightarrow> nat \<Rightarrow> 'z csc \<Rightarrow> 'z csc option" where
  "saxpy3_numeric_template E TL nfine C =
     map_option
       (\<lambda>cols. let cnz = csc_p C ! csc_vdim C
               in C\<lparr>csc_i := fold (\<lambda>j. write_from (csc_p C ! j) (map fst (column_of cols j)))
                                [0..<csc_vdim C] (map (ke_Hi0 E) [0..<cnz]),
                     csc_x := fold (\<lambda>j. write_from (csc_p C ! j) (map snd (column_of cols j)))
                                [0..<csc_vdim C] (map (ke_Hx0 E) [0..<cnz])\<rparr>)
       (saxpy3_columns E TL nfine)"

subsection \<open>The kernels as GB\_AxB\_saxpy3 calls them\<close>

text \<open>
  Modelled from the spec: the calls of the kernels. The mask, the complement flag and
  the structural flag of the call decide which entries pass; the tasks are those of the
  call. The matrix \<open>C\<close> is \<open>None\<close> once a kernel has not returned (the probe of a full
  hash table does not end).
\<close>

definition args_env :: "('a, 'b, 'z) kernel_env \<Rightarrow> bool csc kernel_args \<Rightarrow> ('a, 'b, 'z) kernel_env" where
  "args_env E args =
     E\<lparr>ke_allow := mask_allows (ka_M args) (ka_Mask_comp args) (ka_Mask_struct args)\<rparr>"

definition saxpy3_symbolic_call ::
  "('a, 'b, 'z) kernel_env \<Rightarrow> bool csc kernel_args \<Rightarrow> 'z csc option \<Rightarrow> 'z csc option" where
  "saxpy3_symbolic_call E args C =
     Option.bind C (GB_AxB_saxpy3_symbolic (args_env E args) (ka_TaskList args) (nat (ka_nfine args)))"

definition saxpy3_template_call ::
  "('a, 'b, 'z) kernel_env \<Rightarrow> bool csc kernel_args \<Rightarrow> 'z csc option \<Rightarrow> 'z csc option" where
  "saxpy3_template_call E args C =
     Option.bind C (saxpy3_numeric_template (args_env E args) (ka_TaskList args) (nat (ka_nfine args)))"

text \<open>
  Modelled from the spec: \<^verbatim>\<open>GB_AxB_saxpy3_generic\<close> runs the numeric phase with the
  operators of the semiring, called through their function pointers.
\<close>

definition GB_AxB_saxpy3_generic ::
  "('a, 'b, 'z) kernel_env \<Rightarrow> bool csc kernel_args \<Rightarrow> 'z csc option \<Rightarrow> GrB_Info \<times> 'z csc option" where
  "GB_AxB_saxpy3_generic E args C = (GrB_SUCCESS, saxpy3_template_call E args C)"

text \<open>
  A worker \<^verbatim>\<open>GB_Asaxpy3B (add,mult,xname)\<close> of the switch factory, as the generated
  files define them: the template under the macros of the semiring, or
  \<^verbatim>\<open>GrB_NO_VALUE\<close> when the semiring is disabled.
  \<^verbatim>\<open>
  #if GB_DISABLE
  return (GrB_NO_VALUE) ;
  #else
  #include "GB_AxB_saxpy_template.c"
  return (GrB_SUCCESS) ;
  #endif
  \<close>
\<close>

definition saxpy3_worker ::
  "bool \<Rightarrow> ('a, 'b, 'z) kernel_env \<Rightarrow> bool csc kernel_args \<Rightarrow> 'z csc option \<Rightarrow> GrB_Info \<times> 'z csc option" where
  "saxpy3_worker GB_DISABLE W args C =
     (if GB_DISABLE then (GrB_NO_VALUE, C) else (GrB_SUCCESS, saxpy3_template_call W args C))"







text \<open>
  Modelled from the spec: the callees of \<^verbatim>\<open>GB_AxB_saxpy3\<close> for the inputs and the
  semiring of \<open>E\<close>. \<^verbatim>\<open>GB_new\<close> makes the header of \<open>C\<close> with cleared pointers, MKL is
  not used, and \<^verbatim>\<open>GB_hypermatrix_prune\<close> leaves a matrix that is not hypersparse as it
  is. The allocator, \<^verbatim>\<open>GB_is_packed\<close>, the flop count and the worker of the switch
  factory stay parameters.
\<close>

definition GB_new_header :: "('a, 'b, 'z) kernel_env \<Rightarrow> 'z csc" where
  "GB_new_header E =
     \<lparr>csc_vlen = csc_vlen (ke_A E), csc_vdim = csc_vdim (ke_B E),
      csc_p = replicate (Suc (csc_vdim (ke_B E))) 0, csc_i = [], csc_x = []\<rparr>"

definition saxpy3_callees ::
  "('a, 'b, 'z) kernel_env \<Rightarrow> (workspace \<Rightarrow> bool) \<Rightarrow> (bool csc \<Rightarrow> bool)
    \<Rightarrow> (bool csc option \<Rightarrow> bool \<Rightarrow> (int \<Rightarrow> int) \<Rightarrow> GrB_Info \<times> int \<times> (int \<Rightarrow> int))
    \<Rightarrow> bool \<Rightarrow> (bool csc kernel_args \<Rightarrow> 'z csc option \<Rightarrow> GrB_Info \<times> 'z csc option) option
    \<Rightarrow> (bool csc, 'z csc option) callees" where
  "saxpy3_callees E alloc packed flopcount builtin worker =
     \<lparr>c_mkl = None, c_GB_new = (GrB_SUCCESS, Some (GB_new_header E)), c_packed = packed,
      c_flopcount = flopcount, c_alloc = alloc, c_Bflops2_init = (\<lambda>k. 0),
      c_symbolic = saxpy3_symbolic_call E, c_builtin_semiring = builtin, c_worker = worker,
      c_generic = GB_AxB_saxpy3_generic E, c_prune = (\<lambda>C. (GrB_SUCCESS, C))\<rparr>"

text \<open>
  The entries of one vector as a map from the row index: each product is added to the
  entry of its row, which it creates when the row is new.
\<close>

definition ins :: "('z \<Rightarrow> 'z \<Rightarrow> 'z) \<Rightarrow> nat \<times> 'z \<Rightarrow> (nat \<rightharpoonup> 'z) \<Rightarrow> (nat \<rightharpoonup> 'z)" where
  "ins add it m = m (fst it := accum add (snd it) (m (fst it)))"

definition col_map :: "('z \<Rightarrow> 'z \<Rightarrow> 'z) \<Rightarrow> (nat \<times> 'z) list \<Rightarrow> (nat \<rightharpoonup> 'z)" where
  "col_map add cs = fold (ins add) cs Map.empty"

text \<open>What the dense arrays of Gustavson's method hold under a mark.\<close>

definition gus_abs :: "nat \<Rightarrow> (nat \<Rightarrow> nat) \<times> (nat \<Rightarrow> 'z) \<Rightarrow> (nat \<rightharpoonup> 'z)" where
  "gus_abs mark T = (case T of (hf, hx) \<Rightarrow> (\<lambda>i. if hf i = mark then Some (hx i) else None))"

text \<open>
  What a hash table holds under a mark: every taken slot holds the entry of its row
  and is where the probe for that row ends, and every entry is in a taken slot.
\<close>

definition hash_rep ::
  "(nat \<Rightarrow> nat) \<Rightarrow> nat \<Rightarrow> nat \<Rightarrow> (nat \<Rightarrow> nat) \<times> (nat \<Rightarrow> nat) \<times> (nat \<Rightarrow> 'z) \<Rightarrow> (nat \<rightharpoonup> 'z) \<Rightarrow> bool" where
  "hash_rep hashf h mark T m \<longleftrightarrow>
     (case T of (hf, hi, hx) \<Rightarrow>
        (\<forall>s < h. hf s = mark \<longrightarrow>
            m (hi s) = Some (hx s)
          \<and> hash_probe h h (hashf (hi s) mod h) (hi s) mark hf hi = Some s)
      \<and> (\<forall>i. m i \<noteq> None \<longrightarrow> (\<exists>s < h. hf s = mark \<and> hi s = i)))"

text \<open>
  A table is fresh for a mark when no slot carries that mark or a later one. The rows
  that a table can hold are those below \<open>cvlen\<close> for the dense arrays and all rows
  for a hash table.
\<close>

definition table_fresh :: "nat \<Rightarrow> 'z workspace_table \<Rightarrow> bool" where
  "table_fresh mark T \<longleftrightarrow>
     (case T of Gustavson_table hf hx \<Rightarrow> \<forall>s. hf s < mark
              | Hash_table h hf hi hx \<Rightarrow> \<forall>s. hf s < mark)"

definition table_slots :: "'z workspace_table \<Rightarrow> nat option" where
  "table_slots T = (case T of Gustavson_table hf hx \<Rightarrow> None | Hash_table h hf hi hx \<Rightarrow> Some h)"

definition table_rows :: "nat \<Rightarrow> 'z workspace_table \<Rightarrow> nat set" where
  "table_rows cvlen T = (case table_slots T of None \<Rightarrow> {..<cvlen} | Some h \<Rightarrow> UNIV)"

text \<open>
  A computed vector \<open>c\<close> is right for the products \<open>cs\<close> when its rows ascend and it
  holds, for each row that the table can hold, the sum of the products of that row.
\<close>

definition column_ok :: "('z \<Rightarrow> 'z \<Rightarrow> 'z) \<Rightarrow> nat set \<Rightarrow> (nat \<times> 'z) list \<Rightarrow> (nat \<times> 'z) list \<Rightarrow> bool" where
  "column_ok add R cs c \<longleftrightarrow> sorted_wrt (<) (map fst c) \<and> map_of c = col_map add cs |` R"

text \<open>
  What the tasks compute, in their order: the vector, the rows that the table of the
  task can hold and the positions of the entries of \<open>B\<close> that are multiplied.
\<close>

definition hsize_rows :: "nat \<Rightarrow> int \<Rightarrow> nat set" where
  "hsize_rows cvlen h = (if h = int cvlen then {..<cvlen} else UNIV)"

definition team_plan ::
  "nat \<Rightarrow> GB_saxpy3task_struct list \<Rightarrow> nat \<Rightarrow> nat \<Rightarrow> (nat \<times> nat set \<times> nat list) list" where
  "team_plan cvlen TL nfine l =
     [(nat (vector (TL ! l)), hsize_rows cvlen (hsize (TL ! l)), team_positions TL nfine l)]"

definition coarse_plan ::
  "nat \<Rightarrow> 'b csc \<Rightarrow> GB_saxpy3task_struct \<Rightarrow> (nat \<times> nat set \<times> nat list) list" where
  "coarse_plan cvlen B t =
     map (\<lambda>kk. (nat kk, hsize_rows cvlen (hsize t), col_positions B (nat kk))) [start t..end_entry t]"

definition column_plan ::
  "nat \<Rightarrow> 'b csc \<Rightarrow> GB_saxpy3task_struct list \<Rightarrow> nat \<Rightarrow> (nat \<times> nat set \<times> nat list) list" where
  "column_plan cvlen B TL nfine =
     concat (map (team_plan cvlen TL nfine) (filter (\<lambda>l. leader (TL ! l) = int l) [0..<nfine])
             @ map (coarse_plan cvlen B) (drop nfine TL))"

definition plan_ok ::
  "('a, 'b, 'z) kernel_env \<Rightarrow> nat \<times> nat set \<times> nat list \<Rightarrow> nat \<times> (nat \<times> 'z) list \<Rightarrow> bool" where
  "plan_ok E pl jc \<longleftrightarrow>
     (case pl of (j, R, ps) \<Rightarrow>
        fst jc = j \<and> column_ok (ke_add E) R (task_contribs E j ps) (snd jc))"

text \<open>
  Example inputs of the kernels: the diagonal matrices \<open>A\<close> with 2, 3, 4 and \<open>B\<close> with
  5, 6, 7 over the integers with plus and times, two matrices over \<^verbatim>\<open>uint8_t\<close>, a flop
  count that counts the products of each vector of \<open>B\<close>, and the parameters that
  \<^verbatim>\<open>GB_AxB_saxpy3\<close> reads from \<open>A\<close> and \<open>B\<close>.
\<close>

definition ex_A :: "int csc" where
  "ex_A = \<lparr>csc_vlen = 3, csc_vdim = 3, csc_p = [0, 1, 2, 3], csc_i = [0, 1, 2], csc_x = [2, 3, 4]\<rparr>"

definition ex_B :: "int csc" where
  "ex_B = \<lparr>csc_vlen = 3, csc_vdim = 3, csc_p = [0, 1, 2, 3], csc_i = [0, 1, 2], csc_x = [5, 6, 7]\<rparr>"

definition ex_plus_times :: "(int, int, int) kernel_env" where
  "ex_plus_times =
     \<lparr>ke_hashf = (\<lambda>i. i * 257), ke_add = (+), ke_mult = (*), ke_A = ex_A, ke_B = ex_B,
      ke_allow = (\<lambda>j i. True), ke_Hi0 = (\<lambda>s. 0), ke_Hx0 = (\<lambda>s. 0)\<rparr>"




text \<open>
  A second pair: \<open>A\<close> with one vector of length 10 whose rows 2 and 9 go to the slots
  2 and 1 of a hash table of 8 slots.
\<close>

definition ex_A10 :: "int csc" where
  "ex_A10 = \<lparr>csc_vlen = 10, csc_vdim = 1, csc_p = [0, 2], csc_i = [2, 9], csc_x = [1, 2]\<rparr>"

definition ex_B1 :: "int csc" where
  "ex_B1 = \<lparr>csc_vlen = 1, csc_vdim = 1, csc_p = [0, 1], csc_i = [0], csc_x = [5]\<rparr>"

definition ex_env10 :: "(int, int, int) kernel_env" where
  "ex_env10 = ex_plus_times\<lparr>ke_A := ex_A10, ke_B := ex_B1\<rparr>"

definition ex_C10 :: "int csc" where
  "ex_C10 = \<lparr>csc_vlen = 10, csc_vdim = 1, csc_p = [0, 2], csc_i = [2, 9], csc_x = [5, 10]\<rparr>"

definition col_flops :: "'a csc \<Rightarrow> 'b csc \<Rightarrow> nat \<Rightarrow> nat" where
  "col_flops A B j =
     sum_list (map (\<lambda>q. length (col_positions A (fst (entry_at B q)))) (col_positions B j))"

definition ex_flops ::
  "'a csc \<Rightarrow> 'b csc \<Rightarrow> bool csc option \<Rightarrow> bool \<Rightarrow> (int \<Rightarrow> int) \<Rightarrow> GrB_Info \<times> int \<times> (int \<Rightarrow> int)" where
  "ex_flops A B M Mask_comp Bflops0 =
     (GrB_SUCCESS, 0,
      (\<lambda>k. if 0 \<le> k \<and> k \<le> int (csc_vdim B)
           then int (sum_list (map (col_flops A B) [0..<nat k])) else Bflops0 k))"

definition saxpy3_params :: "helpers \<Rightarrow> 'a csc \<Rightarrow> 'b csc \<Rightarrow> real \<Rightarrow> int \<Rightarrow> part_params" where
  "saxpy3_params H A B chunk nthreads_max =
     \<lparr>p_helpers = H, p_Bflops = (\<lambda>k. 0), p_Bp = Some (\<lambda>k. int (csc_p B ! nat k)),
      p_bvlen = int (csc_vlen B), p_bnvec = int (csc_vdim B), p_bvdim = int (csc_vdim B),
      p_cvlen = int (csc_vlen A), p_csize = 8, p_is_any_pair_semiring = False,
      p_GBI_Bi = (\<lambda>pB. int (csc_i B ! nat pB)), p_GBB_Bb = (\<lambda>pB. True),
      p_A_nnz = (\<lambda>k. int (csc_p A ! Suc (nat k)) - int (csc_p A ! nat k)),
      p_chunk = chunk, p_nthreads_max = nthreads_max, p_AxB_method = GxB_DEFAULT,
      p_ntasks_initial = 0, p_target_task_size = 0, p_target_fine_size = 0,
      p_Coarse_initial = (\<lambda>k. 0)\<rparr>"

section \<open>Properties\<close>

subsection \<open>Facts about the hash sizer\<close>

lemma floor_log2_eq: "1 \<le> flmax \<Longrightarrow> floor_log2 flmax = \<lfloor>log 2 (real_of_int flmax)\<rfloor>"
  by (simp add: floor_log2_def bitlen_alt_def)

lemma floor_log2_nonneg: "1 \<le> flmax \<Longrightarrow> 0 \<le> floor_log2 flmax"
  by (simp add: floor_log2_def bitlen_alt_def)


lemma hash_size_of_eq: "1 \<le> flmax \<Longrightarrow> hash_size_of flmax = 4 * 2 ^ nat (floor_log2 flmax)"
  using floor_log2_nonneg [of flmax] by (simp add: hash_size_of_def nat_add_distrib)












subsection \<open>The exits of GB\_AxB\_saxpy3\<close>

lemma GB_FREE_ALL_simps [simp]:
  "Chandle (GB_FREE_ALL s) = None" "all_freed (GB_FREE_ALL s)"
  "mask_applied (GB_FREE_ALL s) = mask_applied s"
  by (simp_all add: GB_FREE_ALL_def GB_FREE_WORK_def GB_FREE_INITIAL_WORK_def all_freed_def)

lemma GB_FREE_WORK_simps [simp]:
  "Chandle (GB_FREE_WORK s) = Chandle s" "all_freed (GB_FREE_WORK s)"
  "mask_applied (GB_FREE_WORK s) = mask_applied s"
  by (simp_all add: GB_FREE_WORK_def GB_FREE_INITIAL_WORK_def all_freed_def)

lemma GB_FREE_INITIAL_WORK_simps [simp]:
  "Chandle (GB_FREE_INITIAL_WORK s) = Chandle s"
  "mask_applied (GB_FREE_INITIAL_WORK s) = mask_applied s"
  by (simp_all add: GB_FREE_INITIAL_WORK_def)

lemma all_freed_upd [simp]:
  "all_freed (s\<lparr>Chandle := c\<rparr>) = all_freed s"
  "all_freed (s\<lparr>mask_applied := b\<rparr>) = all_freed s"
  by (simp_all add: all_freed_def)

lemma prune_statusI: "c_prune K C = (info, C') \<Longrightarrow> info \<in> prune_status K"
  unfolding prune_status_def by (metis fst_conv rangeI)

lemma saxpy3_kernels_cases:
  assumes "saxpy3_kernels K args C s = (info, s')"
  shows "(info = GrB_SUCCESS \<and> Chandle s' \<noteq> None \<and> all_freed s'
            \<and> mask_applied s' = (ka_M args \<noteq> None))
       \<or> (info \<noteq> GrB_SUCCESS \<and> Chandle s' = None \<and> all_freed s'
            \<and> mask_applied s' = mask_applied s
            \<and> (info = GrB_OUT_OF_MEMORY \<or> info \<in> prune_status K))"
  using assms
  by (auto simp: saxpy3_kernels_def split: prod.splits if_splits dest: prune_statusI)

lemma saxpy3_hash_cases:
  assumes "saxpy3_hash K P d ms ntasks nfine nthreads TL C s = (info, s')"
  shows "(info = GrB_SUCCESS \<and> Chandle s' \<noteq> None \<and> all_freed s'
            \<and> mask_applied s' = (md_M d \<noteq> None))
       \<or> (info \<noteq> GrB_SUCCESS \<and> Chandle s' = None \<and> all_freed s'
            \<and> mask_applied s' = mask_applied s
            \<and> (info = GrB_OUT_OF_MEMORY \<or> info \<in> prune_status K))"
proof -
  obtain a b c where tot: "hash_sizes_total P TL ntasks = (a, b, c)"
    by (cases "hash_sizes_total P TL ntasks") auto
  let ?s1 = "(GB_FREE_INITIAL_WORK s)
                     \<lparr>Hi_all := (a > 0 \<and> c_alloc K W_Hi_all),
                      Hf_all := (b > 0 \<and> c_alloc K W_Hf_all),
                      Hx_all := (c > 0 \<and> c_alloc K W_Hx_all)\<rparr>"
  have ma: "mask_applied ?s1 = mask_applied s" by simp
  show ?thesis
  proof (cases "(a > 0 \<and> \<not> Hi_all ?s1) \<or> (b > 0 \<and> \<not> Hf_all ?s1) \<or> (c > 0 \<and> \<not> Hx_all ?s1)")
    case True
    then have "saxpy3_hash K P d ms ntasks nfine nthreads TL C s = (GrB_OUT_OF_MEMORY, GB_FREE_ALL ?s1)"
      unfolding saxpy3_hash_def tot by (simp add: Let_def)
    with assms show ?thesis by auto
  next
    case False
    then obtain args where "saxpy3_hash K P d ms ntasks nfine nthreads TL C s = saxpy3_kernels K args C ?s1"
       and "ka_M args = md_M d"
      unfolding saxpy3_hash_def tot by (simp add: Let_def)
    with assms saxpy3_kernels_cases [of K args C ?s1 info s'] ma show ?thesis by auto
  qed
qed

lemma saxpy3_tasks_cases:
  assumes "saxpy3_tasks K P d ms C s = Some (info, s')"
  shows "(info = GrB_SUCCESS \<and> Chandle s' \<noteq> None \<and> all_freed s'
            \<and> mask_applied s' = (md_M d \<noteq> None))
       \<or> (info \<noteq> GrB_SUCCESS \<and> Chandle s' = None \<and> all_freed s'
            \<and> mask_applied s' = mask_applied s
            \<and> (info = GrB_OUT_OF_MEMORY \<or> info \<in> prune_status K))"
proof -
  let ?P = "partition_params P (md_Bflops d) (md_total_flops d) (md_AxB_method d)"
  obtain nc nf mb where cnt: "count_tasks ?P = (nc, nf, mb)"
    by (cases "count_tasks ?P") auto
  let ?s1 = "s\<lparr>Coarse_initial := (p_ntasks_initial ?P > 1),
                              TaskList := c_alloc K W_TaskList,
                              Coarse_Work := c_alloc K W_Coarse_Work,
                              Fine_slice := (mb > 0 \<and> c_alloc K W_Fine_slice),
                              Bflops2 := (mb > 0 \<and> c_alloc K W_Bflops2)\<rparr>"
  have ma: "mask_applied ?s1 = mask_applied s" by simp
  show ?thesis
  proof (cases "p_ntasks_initial ?P > 1 \<and> \<not> c_alloc K W_Coarse_initial")
    case True
    have "saxpy3_tasks K P d ms C s = Some (GrB_OUT_OF_MEMORY, GB_FREE_ALL s)"
      unfolding saxpy3_tasks_def Let_def by (subst if_P [OF True]) (rule refl)
    with assms show ?thesis by auto
  next
    case nopslice: False
    show ?thesis
    proof (cases "\<not> TaskList ?s1 \<or> \<not> Coarse_Work ?s1 \<or> (mb > 0 \<and> (\<not> Fine_slice ?s1 \<or> \<not> Bflops2 ?s1))")
      case True
      then have "saxpy3_tasks K P d ms C s = Some (GrB_OUT_OF_MEMORY, GB_FREE_ALL ?s1)"
        unfolding saxpy3_tasks_def Let_def
        by (subst if_not_P [OF nopslice], unfold cnt prod.case, subst if_P [OF True]) (rule refl)
      with assms have "info = GrB_OUT_OF_MEMORY" "s' = GB_FREE_ALL ?s1" by auto
      then show ?thesis using ma by (simp del: saxpy3_state.simps)
    next
      case False
      then have "saxpy3_tasks K P d ms C s =
          (case create_tasks ?P (c_Bflops2_init K) of None \<Rightarrow> None
           | Some TL \<Rightarrow> Some (saxpy3_hash K ?P d ms (nc + nf) nf
               (GB_nthreads (p_helpers ?P) (real_of_int (md_total_flops d)) (p_chunk ?P) (p_nthreads_max ?P))
               TL C ?s1))"
        unfolding saxpy3_tasks_def Let_def
        by (subst if_not_P [OF nopslice], unfold cnt prod.case, subst if_not_P [OF False]) (rule refl)
      with assms obtain TL nth where "saxpy3_hash K ?P d ms (nc + nf) nf nth TL C ?s1 = (info, s')"
        by (auto split: option.splits)
      from saxpy3_hash_cases [OF this] ma show ?thesis by (simp del: saxpy3_state.simps)
    qed
  qed
qed

lemma flop_statusI: "c_flopcount K M mc B = (info, r) \<Longrightarrow> info \<in> flop_status K"
proof -
  assume "c_flopcount K M mc B = (info, r)"
  then have "info = (\<lambda>(M, Mask_comp, Bflops). fst (c_flopcount K M Mask_comp Bflops)) (M, mc, B)"
    by simp
  then show ?thesis unfolding flop_status_def by (rule range_eqI)
qed

lemma mask_decision_status:
  "saxpy3_mask_decision pk (c_flopcount K) M mc m Mwork Bflops cvlen cvdim bnvec = Inl info
   \<Longrightarrow> info \<in> flop_status K \<and> info \<noteq> GrB_SUCCESS"
  by (auto simp: saxpy3_mask_decision_def Let_def split: if_splits prod.splits dest: flop_statusI)

lemma mask_decision_M:
  "saxpy3_mask_decision pk fc M mc m Mwork Bflops cvlen cvdim bnvec = Inr d
   \<Longrightarrow> md_M d \<noteq> None \<longrightarrow> M \<noteq> None"
  by (auto simp: saxpy3_mask_decision_def Let_def GB_is_packed_def split: if_splits prod.splits)

lemma saxpy3_init_simps [simp]:
  "mask_applied (saxpy3_init :: 'c saxpy3_state) = False"
  "all_freed (saxpy3_init :: 'c saxpy3_state)"
  "Chandle (saxpy3_init :: 'c saxpy3_state) = None"
  by (simp_all add: saxpy3_init_def all_freed_def)

lemma saxpy3_main_cases:
  assumes "saxpy3_main K P M mc ms m = Some (info, s')"
  shows "(info = GrB_SUCCESS \<and> Chandle s' \<noteq> None \<and> all_freed s' \<and> (mask_applied s' \<longrightarrow> M \<noteq> None))
       \<or> (info \<noteq> GrB_SUCCESS \<and> Chandle s' = None \<and> all_freed s' \<and> \<not> mask_applied s'
            \<and> (info = GrB_OUT_OF_MEMORY \<or> info = fst (c_GB_new K) \<or> info \<in> flop_status K
                 \<or> info \<in> prune_status K))"
proof -
  obtain ninfo C where new: "c_GB_new K = (ninfo, C)" by (cases "c_GB_new K") auto
  show ?thesis
  proof (cases "ninfo \<noteq> GrB_SUCCESS")
    case True
    with assms new show ?thesis by (auto simp: saxpy3_main_def)
  next
    case nok: False
    obtain finfo Mwork Bflops where fl: "c_flopcount K M mc (\<lambda>kk. 0) = (finfo, Mwork, Bflops)"
      by (cases "c_flopcount K M mc (\<lambda>kk. 0)") auto
    let ?s = "saxpy3_init\<lparr>Chandle := Some C\<rparr>"
    show ?thesis
    proof (cases "finfo \<noteq> GrB_SUCCESS")
      case True
      with assms new nok fl flop_statusI [OF fl] show ?thesis
        by (auto simp: saxpy3_main_def)
    next
      case fok: False
      show ?thesis
      proof (cases "saxpy3_mask_decision (c_packed K) (c_flopcount K) M mc m Mwork Bflops
                      (p_cvlen P) (p_bvdim P) (p_bnvec P)")
        case (Inl info2)
        with assms new nok fl fok mask_decision_status [OF Inl] show ?thesis
          by (auto simp: saxpy3_main_def)
      next
        case (Inr d)
        with assms new nok fl fok have "saxpy3_tasks K P d ms C ?s = Some (info, s')"
          by (simp add: saxpy3_main_def)
        from saxpy3_tasks_cases [OF this] mask_decision_M [OF Inr] show ?thesis
          by auto
      qed
    qed
  qed
qed

lemma GB_AxB_saxpy3_declined:
  "mkl_declines K \<Longrightarrow> GB_AxB_saxpy3 K P M mc ms m = saxpy3_main K P M mc ms m"
  by (auto simp: GB_AxB_saxpy3_def mkl_declines_def split: option.splits)

text \<open>
  Claim C3, as the code has it. With a mask \<open>M\<close>: when \<open>M\<close> is fully dense and the
  method hint is the default or Saxpy, \<open>Mwork\<close> becomes \<open>cvlen * cvdim\<close> and the mask is
  used in place (Hash forced, flop counts unchanged) if \<open>axbflops < Mwork * 0.10\<close>, and
  otherwise Gustavson's method is forced and \<open>cvlen * (kk + 1)\<close> is added to
  \<open>Bflops [kk]\<close>. In every other case (\<open>M\<close> not fully dense, or the hint Gustavson or
  Hash), if \<open>axbflops < Mwork * 0.01\<close> the mask is discarded: \<open>M\<close> is \<^verbatim>\<open>NULL\<close>, the
  complement flag is cleared, the flop estimator runs again without the mask on the
  zeroed \<open>Bflops\<close>, and no return of the function reports \<open>mask_applied\<close>; otherwise
  the mask is used as it is.
\<close>

theorem mask_decision_rule:
  "let axbflops = real_of_int (Bflops bnvec - Mwork);
       r = saxpy3_mask_decision packed (c_flopcount K) (Some m) Mask_comp hint Mwork Bflops
             cvlen cvdim bnvec;
       dense_auto = (packed m \<and> (hint = GxB_DEFAULT \<or> hint = GxB_AxB_SAXPY))
   in (dense_auto \<and> axbflops < real_of_int (cvlen * cvdim) * (10 / 100) \<longrightarrow>
         (\<exists>d. r = Inr d \<and> md_M d = Some m \<and> md_Mask_comp d = Mask_comp \<and> md_M_dense_in_place d
             \<and> md_AxB_method d = GxB_AxB_HASH \<and> md_Bflops d = Bflops
             \<and> md_total_flops d = Bflops bnvec))
    \<and> (dense_auto \<and> \<not> axbflops < real_of_int (cvlen * cvdim) * (10 / 100) \<longrightarrow>
         (\<exists>d. r = Inr d \<and> md_M d = Some m \<and> md_Mask_comp d = Mask_comp \<and> \<not> md_M_dense_in_place d
             \<and> md_AxB_method d = GxB_AxB_GUSTAVSON
             \<and> (\<forall>kk. 0 \<le> kk \<and> kk \<le> bnvec \<longrightarrow> md_Bflops d kk = Bflops kk + cvlen * (kk + 1))
             \<and> md_total_flops d = md_Bflops d bnvec))
    \<and> (\<not> dense_auto \<and> axbflops < real_of_int Mwork * (1 / 100) \<longrightarrow>
         (case c_flopcount K None False (\<lambda>kk. if 0 \<le> kk \<and> kk \<le> bnvec then 0 else Bflops kk) of
            (info, Mwork', Bflops') \<Rightarrow>
              if info \<noteq> GrB_SUCCESS then r = Inl info
              else (\<exists>d. r = Inr d \<and> md_M d = None \<and> \<not> md_Mask_comp d \<and> \<not> md_M_dense_in_place d
                      \<and> md_AxB_method d = hint \<and> md_Bflops d = Bflops'
                      \<and> md_total_flops d = Bflops' bnvec
                      \<and> (\<forall>P Mask_struct C s info s'.
                            saxpy3_tasks K P d Mask_struct C s = Some (info, s') \<and> \<not> mask_applied s
                            \<longrightarrow> \<not> mask_applied s'))))
    \<and> (\<not> dense_auto \<and> \<not> axbflops < real_of_int Mwork * (1 / 100) \<longrightarrow>
         (\<exists>d. r = Inr d \<and> md_M d = Some m \<and> md_Mask_comp d = Mask_comp \<and> \<not> md_M_dense_in_place d
             \<and> md_AxB_method d = hint \<and> md_Bflops d = Bflops
             \<and> md_total_flops d = Bflops bnvec))"
proof -
  have applied: "\<not> mask_applied s'"
    if "saxpy3_tasks K P d ms C s = Some (info, s')" "\<not> mask_applied s" "md_M d = None"
    for P d ms C s info and s' :: "'b saxpy3_state"
    using saxpy3_tasks_cases [OF that(1)] that(2,3) by auto
  show ?thesis
    unfolding Let_def
    apply (intro conjI impI)
       apply (simp add: saxpy3_mask_decision_def GB_is_packed_def GB_MWORK_BETA_def Let_def)
      apply (simp add: saxpy3_mask_decision_def GB_is_packed_def GB_MWORK_BETA_def Let_def)
     apply (cases "c_flopcount K None False (\<lambda>kk. if 0 \<le> kk \<and> kk \<le> bnvec then 0 else Bflops kk)")
     apply (auto simp: saxpy3_mask_decision_def GB_is_packed_def GB_MWORK_ALPHA_def Let_def
        dest: applied)[1]
    apply (auto simp: saxpy3_mask_decision_def GB_is_packed_def GB_MWORK_ALPHA_def Let_def)[1]
    done
qed

text \<open>
  Claim C3: the rule on a packed mask, for the dense case in place, the discarded mask
  and the mask used as it is.
\<close>

theorem mask_decision_rule_witness:
  "md_M_dense_in_place (projr (saxpy3_mask_decision ex_packed ex_flopcount (Some ()) False
      GxB_DEFAULT 100 ex_Bflops 10 10 1))
   \<and> md_AxB_method (projr (saxpy3_mask_decision ex_packed ex_flopcount (Some ()) False
      GxB_DEFAULT 100 ex_Bflops 10 10 1)) = GxB_AxB_HASH
   \<and> md_M (projr (saxpy3_mask_decision ex_packed ex_flopcount (Some ()) False
      GxB_AxB_HASH 1000 ex_Bflops 10 10 1)) = None
   \<and> md_M (projr (saxpy3_mask_decision ex_packed ex_flopcount (Some ()) False
      GxB_AxB_HASH 100 ex_Bflops 10 10 1)) = Some ()"
  using mask_decision_rule [where Bflops = ex_Bflops and bnvec = 1 and Mwork = 100
          and packed = ex_packed and K = "ex_callees GrB_SUCCESS GrB_SUCCESS (\<lambda>w. True)"
          and m = "()" and Mask_comp = False and hint = GxB_DEFAULT and cvlen = 10 and cvdim = 10]
        mask_decision_rule [where Bflops = ex_Bflops and bnvec = 1 and Mwork = 1000
          and packed = ex_packed and K = "ex_callees GrB_SUCCESS GrB_SUCCESS (\<lambda>w. True)"
          and m = "()" and Mask_comp = False and hint = GxB_AxB_HASH and cvlen = 10 and cvdim = 10]
        mask_decision_rule [where Bflops = ex_Bflops and bnvec = 1 and Mwork = 100
          and packed = ex_packed and K = "ex_callees GrB_SUCCESS GrB_SUCCESS (\<lambda>w. True)"
          and m = "()" and Mask_comp = False and hint = GxB_AxB_HASH and cvlen = 10 and cvdim = 10]
  by (auto simp: Let_def ex_Bflops_def ex_packed_def ex_callees_def ex_flopcount_def)

text \<open>
  Claim C3 as stated fails: with a fully dense mask, \<open>axbflops = 5 < Mwork * 0.10 = 10\<close>
  and the hint Gustavson, the mask is not used in place and Hash is not forced.
\<close>

theorem mask_decision_dense_counterexample:
  "ex_packed () \<and> real_of_int (ex_Bflops 1 - 100) < real_of_int 100 * GB_MWORK_BETA
   \<and> \<not> isl (saxpy3_mask_decision ex_packed ex_flopcount (Some ()) False
      GxB_AxB_GUSTAVSON 100 ex_Bflops 10 10 1)
   \<and> \<not> md_M_dense_in_place (projr (saxpy3_mask_decision ex_packed ex_flopcount (Some ()) False
      GxB_AxB_GUSTAVSON 100 ex_Bflops 10 10 1))
   \<and> md_AxB_method (projr (saxpy3_mask_decision ex_packed ex_flopcount (Some ()) False
      GxB_AxB_GUSTAVSON 100 ex_Bflops 10 10 1)) = GxB_AxB_GUSTAVSON"
  by (simp add: saxpy3_mask_decision_def GB_is_packed_def ex_packed_def ex_Bflops_def
      GB_MWORK_BETA_def GB_MWORK_ALPHA_def Let_def)




text \<open>
  Claim C8. A failed allocation ends the call with \<^verbatim>\<open>GrB_OUT_OF_MEMORY\<close>, no
  workspace left and \<^verbatim>\<open>*Chandle\<close> \<^verbatim>\<open>NULL\<close>: for the header of \<open>C\<close> (\<^verbatim>\<open>GB_new\<close> reports
  out of memory), for the initial slices, the task list, \<open>Coarse_Work\<close>, \<open>Fine_slice\<close>
  and \<open>Bflops2\<close> (from any state in which the partitioner is reached), and for the
  buffers \<open>Hi_all\<close>, \<open>Hf_all\<close>, \<open>Hx_all\<close> whose size is positive (from any state in
  which the tables are allocated). No return with a status other than success leaves
  a matrix, a workspace or \<open>mask_applied\<close>.
\<close>

theorem saxpy3_allocation_failure:
  assumes "mkl_declines K"
  shows "(fst (c_GB_new K) = GrB_OUT_OF_MEMORY \<longrightarrow>
           (\<exists>s'. GB_AxB_saxpy3 K P M Mask_comp Mask_struct hint = Some (GrB_OUT_OF_MEMORY, s')
                 \<and> Chandle s' = None \<and> all_freed s'))
     \<and> (\<forall>d C s. (case count_tasks (partition_params P (md_Bflops d) (md_total_flops d) (md_AxB_method d)) of
                    (ncoarse, nfine, max_bjnz) \<Rightarrow>
                      (p_ntasks_initial (partition_params P (md_Bflops d) (md_total_flops d)
                          (md_AxB_method d)) > 1 \<and> \<not> c_alloc K W_Coarse_initial)
                      \<or> \<not> c_alloc K W_TaskList \<or> \<not> c_alloc K W_Coarse_Work
                      \<or> (max_bjnz > 0 \<and> (\<not> c_alloc K W_Fine_slice \<or> \<not> c_alloc K W_Bflops2)))
            \<longrightarrow> (\<exists>s'. saxpy3_tasks K P d Mask_struct C s = Some (GrB_OUT_OF_MEMORY, s')
                     \<and> Chandle s' = None \<and> all_freed s'))
     \<and> (\<forall>P' d ntasks nfine nthreads TL C s.
            (case hash_sizes_total P' TL ntasks of
               (Hi_size_total, Hf_size_total, Hx_size_total) \<Rightarrow>
                 (Hi_size_total > 0 \<and> \<not> c_alloc K W_Hi_all)
                 \<or> (Hf_size_total > 0 \<and> \<not> c_alloc K W_Hf_all)
                 \<or> (Hx_size_total > 0 \<and> \<not> c_alloc K W_Hx_all))
            \<longrightarrow> (\<exists>s'. saxpy3_hash K P' d Mask_struct ntasks nfine nthreads TL C s
                        = (GrB_OUT_OF_MEMORY, s')
                     \<and> Chandle s' = None \<and> all_freed s'))
     \<and> (\<forall>info s'. GB_AxB_saxpy3 K P M Mask_comp Mask_struct hint = Some (info, s')
            \<and> info \<noteq> GrB_SUCCESS \<longrightarrow> Chandle s' = None \<and> all_freed s' \<and> \<not> mask_applied s')"
proof -
  have new: "\<exists>s'. GB_AxB_saxpy3 K P M Mask_comp Mask_struct hint = Some (GrB_OUT_OF_MEMORY, s')
                 \<and> Chandle s' = None \<and> all_freed s'"
    if "fst (c_GB_new K) = GrB_OUT_OF_MEMORY"
  proof -
    from that have "saxpy3_main K P M Mask_comp Mask_struct hint
        = Some (GrB_OUT_OF_MEMORY, GB_FREE_ALL saxpy3_init)"
      by (cases "c_GB_new K") (simp add: saxpy3_main_def)
    then show ?thesis using GB_AxB_saxpy3_declined [OF assms] by simp
  qed
  have tasks: "\<exists>s'. saxpy3_tasks K P d Mask_struct C s = Some (GrB_OUT_OF_MEMORY, s')
                     \<and> Chandle s' = None \<and> all_freed s'"
    if "case count_tasks (partition_params P (md_Bflops d) (md_total_flops d) (md_AxB_method d)) of
                    (ncoarse, nfine, max_bjnz) \<Rightarrow>
                      (p_ntasks_initial (partition_params P (md_Bflops d) (md_total_flops d)
                          (md_AxB_method d)) > 1 \<and> \<not> c_alloc K W_Coarse_initial)
                      \<or> \<not> c_alloc K W_TaskList \<or> \<not> c_alloc K W_Coarse_Work
                      \<or> (max_bjnz > 0 \<and> (\<not> c_alloc K W_Fine_slice \<or> \<not> c_alloc K W_Bflops2))"
    for d C and s :: "'b saxpy3_state"
  proof -
    let ?P = "partition_params P (md_Bflops d) (md_total_flops d) (md_AxB_method d)"
    obtain nc nf mb where cnt: "count_tasks ?P = (nc, nf, mb)"
      by (cases "count_tasks ?P") auto
    let ?s1 = "s\<lparr>Coarse_initial := (p_ntasks_initial ?P > 1),
                              TaskList := c_alloc K W_TaskList,
                              Coarse_Work := c_alloc K W_Coarse_Work,
                              Fine_slice := (mb > 0 \<and> c_alloc K W_Fine_slice),
                              Bflops2 := (mb > 0 \<and> c_alloc K W_Bflops2)\<rparr>"
    show ?thesis
    proof (cases "p_ntasks_initial ?P > 1 \<and> \<not> c_alloc K W_Coarse_initial")
      case True
      have "saxpy3_tasks K P d Mask_struct C s = Some (GrB_OUT_OF_MEMORY, GB_FREE_ALL s)"
        unfolding saxpy3_tasks_def Let_def by (subst if_P [OF True]) (rule refl)
      then show ?thesis by simp
    next
      case nopslice: False
      with that cnt have fail: "\<not> TaskList ?s1 \<or> \<not> Coarse_Work ?s1
             \<or> (mb > 0 \<and> (\<not> Fine_slice ?s1 \<or> \<not> Bflops2 ?s1))"
        by auto
      have "saxpy3_tasks K P d Mask_struct C s = Some (GrB_OUT_OF_MEMORY, GB_FREE_ALL ?s1)"
        unfolding saxpy3_tasks_def Let_def
        by (subst if_not_P [OF nopslice], unfold cnt prod.case, subst if_P [OF fail]) (rule refl)
      then show ?thesis by (simp del: saxpy3_state.simps)
    qed
  qed
  have hash: "\<exists>s'. saxpy3_hash K P' d Mask_struct ntasks nfine nthreads TL C s
                        = (GrB_OUT_OF_MEMORY, s')
                     \<and> Chandle s' = None \<and> all_freed s'"
    if "case hash_sizes_total P' TL ntasks of
               (Hi_size_total, Hf_size_total, Hx_size_total) \<Rightarrow>
                 (Hi_size_total > 0 \<and> \<not> c_alloc K W_Hi_all)
                 \<or> (Hf_size_total > 0 \<and> \<not> c_alloc K W_Hf_all)
                 \<or> (Hx_size_total > 0 \<and> \<not> c_alloc K W_Hx_all)"
    for P' d ntasks nfine nthreads TL C and s :: "'b saxpy3_state"
  proof -
    obtain a b c where tot: "hash_sizes_total P' TL ntasks = (a, b, c)"
      by (cases "hash_sizes_total P' TL ntasks") auto
    let ?s1 = "(GB_FREE_INITIAL_WORK s)
                     \<lparr>Hi_all := (a > 0 \<and> c_alloc K W_Hi_all),
                      Hf_all := (b > 0 \<and> c_alloc K W_Hf_all),
                      Hx_all := (c > 0 \<and> c_alloc K W_Hx_all)\<rparr>"
    from that tot have "(a > 0 \<and> \<not> Hi_all ?s1) \<or> (b > 0 \<and> \<not> Hf_all ?s1) \<or> (c > 0 \<and> \<not> Hx_all ?s1)"
      by auto
    then have "saxpy3_hash K P' d Mask_struct ntasks nfine nthreads TL C s
        = (GrB_OUT_OF_MEMORY, GB_FREE_ALL ?s1)"
      unfolding saxpy3_hash_def tot by (simp add: Let_def)
    then show ?thesis by (simp del: saxpy3_state.simps)
  qed
  have nopartial: "Chandle s' = None \<and> all_freed s' \<and> \<not> mask_applied s'"
    if "GB_AxB_saxpy3 K P M Mask_comp Mask_struct hint = Some (info, s') \<and> info \<noteq> GrB_SUCCESS"
    for info s'
  proof -
    from that have "saxpy3_main K P M Mask_comp Mask_struct hint = Some (info, s')"
      using GB_AxB_saxpy3_declined [OF assms] by simp
    from saxpy3_main_cases [OF this] that show ?thesis by auto
  qed
  show ?thesis
  proof (intro conjI)
    show "fst (c_GB_new K) = GrB_OUT_OF_MEMORY \<longrightarrow>
           (\<exists>s'. GB_AxB_saxpy3 K P M Mask_comp Mask_struct hint = Some (GrB_OUT_OF_MEMORY, s')
                 \<and> Chandle s' = None \<and> all_freed s')"
      by (intro impI) (rule new)
  qed (intro allI impI, rule tasks, assumption,
       intro allI impI, rule hash, assumption,
       intro allI impI, rule nopartial, assumption)
qed

text \<open>
  Claim C8: the failures of \<^verbatim>\<open>GB_new\<close>, of the task list and of \<open>Hf_all\<close>; \<open>Hi_all\<close>
  is not needed in the example, so its failure is not seen.
\<close>

theorem saxpy3_allocation_failure_witness:
  "mkl_declines ((ex_callees GrB_NO_VALUE GrB_SUCCESS (\<lambda>w. True))\<lparr>c_GB_new := (GrB_OUT_OF_MEMORY, 0)\<rparr>)
   \<and> (\<exists>s'. GB_AxB_saxpy3
          ((ex_callees GrB_NO_VALUE GrB_SUCCESS (\<lambda>w. True))\<lparr>c_GB_new := (GrB_OUT_OF_MEMORY, 0)\<rparr>)
          ex_params None False False GxB_DEFAULT = Some (GrB_OUT_OF_MEMORY, s')
        \<and> Chandle s' = None \<and> all_freed s')
   \<and> GB_AxB_saxpy3 (ex_callees GrB_NO_VALUE GrB_SUCCESS (\<lambda>w. w \<noteq> W_TaskList)) ex_params None
        False False GxB_DEFAULT = Some (GrB_OUT_OF_MEMORY, saxpy3_init)
   \<and> GB_AxB_saxpy3 (ex_callees GrB_NO_VALUE GrB_SUCCESS (\<lambda>w. w \<noteq> W_Hf_all)) ex_params None
        False False GxB_DEFAULT = Some (GrB_OUT_OF_MEMORY, saxpy3_init)
   \<and> GB_AxB_saxpy3 (ex_callees GrB_NO_VALUE GrB_SUCCESS (\<lambda>w. w \<noteq> W_Hi_all)) ex_params None
        False False GxB_DEFAULT = Some (GrB_SUCCESS, saxpy3_init\<lparr>Chandle := Some 1\<rparr>)"
proof -
  let ?K = "(ex_callees GrB_NO_VALUE GrB_SUCCESS (\<lambda>w. True))\<lparr>c_GB_new := (GrB_OUT_OF_MEMORY, 0)\<rparr>"
  have d: "mkl_declines ?K" by (simp add: mkl_declines_def ex_callees_def)
  have n: "fst (c_GB_new ?K) = GrB_OUT_OF_MEMORY" by simp
  have e2: "GB_AxB_saxpy3 (ex_callees GrB_NO_VALUE GrB_SUCCESS (\<lambda>w. w \<noteq> W_TaskList)) ex_params None
        False False GxB_DEFAULT = Some (GrB_OUT_OF_MEMORY, saxpy3_init)"
    by code_simp
  have e3: "GB_AxB_saxpy3 (ex_callees GrB_NO_VALUE GrB_SUCCESS (\<lambda>w. w \<noteq> W_Hf_all)) ex_params None
        False False GxB_DEFAULT = Some (GrB_OUT_OF_MEMORY, saxpy3_init)"
    by code_simp
  have e4: "GB_AxB_saxpy3 (ex_callees GrB_NO_VALUE GrB_SUCCESS (\<lambda>w. w \<noteq> W_Hi_all)) ex_params None
        False False GxB_DEFAULT = Some (GrB_SUCCESS, saxpy3_init\<lparr>Chandle := Some 1\<rparr>)"
    by code_simp
  from saxpy3_allocation_failure [OF d, of ex_params None False False GxB_DEFAULT] n
  have "\<exists>s'. GB_AxB_saxpy3 ?K ex_params None False False GxB_DEFAULT = Some (GrB_OUT_OF_MEMORY, s')
        \<and> Chandle s' = None \<and> all_freed s'"
    by blast
  with d e2 e3 e4 show ?thesis by blast
qed

subsection \<open>The partitioner never sizes a table for a flop count below 1\<close>

lemma fold_max_ge: "m \<le> fold (\<lambda>i m. max m (f i)) xs (m :: int)"
proof (induction xs arbitrary: m)
  case Nil
  show ?case by simp
next
  case (Cons x xs)
  have "m \<le> max m (f x)" by simp
  also have "\<dots> \<le> fold (\<lambda>i m. max m (f i)) xs (max m (f x))" by (rule Cons.IH)
  finally show ?case by simp
qed

lemma fold_max_ge_elem: "x \<in> set xs \<Longrightarrow> f x \<le> fold (\<lambda>i m. max m (f i)) xs (m :: int)"
proof (induction xs arbitrary: m)
  case Nil
  then show ?case by simp
next
  case (Cons y ys)
  show ?case
  proof (cases "x = y")
    case True
    have "f y \<le> max m (f y)" by simp
    also have "\<dots> \<le> fold (\<lambda>i m. max m (f i)) ys (max m (f y))" by (rule fold_max_ge)
    finally show ?thesis using True by simp
  next
    case False
    with Cons.prems have "x \<in> set ys" by simp
    from Cons.IH [OF this] show ?thesis by simp
  qed
qed

lemma my_flmax_ge1: "1 \<le> my_flmax Bflops kfirst istart iend"
  unfolding my_flmax_def by (rule fold_max_ge)

lemma coarse_flmax_ge1: "1 \<le> coarse_flmax H Bflops kfirst klast chunk nthreads_max"
  unfolding coarse_flmax_def Let_def by (rule fold_max_ge)

lemma GB_hash_table_size_Some:
  "1 \<le> flmax \<Longrightarrow> GB_hash_table_size flmax cvlen hint =
     Some (if use_Gustavson_of (hash_size_of flmax) cvlen hint then cvlen else hash_size_of flmax)"
  by (simp add: GB_hash_table_size_def Let_def)

lemma GB_create_coarse_task_eq:
  "GB_create_coarse_task (p_helpers P) kfirst klast TL taskid (p_Bflops P) (p_cvlen P) chunk
      nthreads_max (p_AxB_method P)
   = Some (TL [nat taskid := coarse_task P kfirst klast taskid chunk nthreads_max])"
  using coarse_flmax_ge1 [of "p_helpers P" "p_Bflops P" kfirst klast chunk nthreads_max]
  by (simp add: GB_create_coarse_task_def coarse_task_def Let_def GB_hash_table_size_Some)

lemma put_coarse_eq:
  "put_coarse P kfirst klast s =
     Some (s\<lparr>ps_TaskList := (ps_TaskList s)
                [nat (ps_nc s) := coarse_task P kfirst klast (ps_nc s) (p_chunk P) (p_nthreads_max P)],
             ps_nc := ps_nc s + 1\<rparr>)"
  by (simp add: put_coarse_def GB_create_coarse_task_eq)

lemma costly_vector_jflops:
  assumes "costly_vector P kk" "0 \<le> p_target_task_size P"
  shows "1 \<le> jflops_of P kk"
proof -
  have "0 \<le> GB_COSTLY * p_target_task_size P"
    using assms(2) by (simp add: GB_COSTLY_def)
  also have "\<dots> < real_of_int (jflops_of P kk)"
    using assms(1) by (simp add: costly_vector_def)
  finally have "0 < jflops_of P kk" by simp
  then show ?thesis by simp
qed

lemma fold_put_fine:
  "0 \<le> ps_nf s \<Longrightarrow> fold (\<lambda>fid. put_fine (g fid)) xs s =
     s\<lparr>ps_TaskList := write_tasks (ps_TaskList s) (nat (ps_nf s)) (map g xs),
       ps_nf := ps_nf s + int (length xs)\<rparr>"
proof (induction xs arbitrary: s)
  case Nil
  show ?case by simp
next
  case (Cons x xs)
  have nn: "0 \<le> ps_nf (put_fine (g x) s)" using Cons.prems by (simp add: put_fine_def)
  have "fold (\<lambda>fid. put_fine (g fid)) (x # xs) s = fold (\<lambda>fid. put_fine (g fid)) xs (put_fine (g x) s)"
    by simp
  also have "\<dots> = (put_fine (g x) s)\<lparr>ps_TaskList :=
        write_tasks (ps_TaskList (put_fine (g x) s)) (nat (ps_nf (put_fine (g x) s))) (map g xs),
       ps_nf := ps_nf (put_fine (g x) s) + int (length xs)\<rparr>"
    by (rule Cons.IH [OF nn])
  also have "\<dots> = s\<lparr>ps_TaskList := write_tasks (ps_TaskList s) (nat (ps_nf s)) (map g (x # xs)),
       ps_nf := ps_nf s + int (length (x # xs))\<rparr>"
    using Cons.prems by (simp add: put_fine_def nat_add_distrib)
  finally show ?case .
qed

lemma length_upto0: "int (length [0..n - 1]) = max 0 n"
  by simp

lemma create_fine_team_eq:
  assumes "1 \<le> jflops_of P kk" "0 \<le> ps_nf s"
  shows "create_fine_team P kk s =
     Some (s\<lparr>ps_Bflops2 := team_Bflops2 P kk (ps_Bflops2 s),
             ps_TaskList := write_tasks (ps_TaskList s) (nat (ps_nf s))
                              (team_tasks P kk (ps_Bflops2 s) (ps_nf s)),
             ps_nf := ps_nf s + max 0 (team_size_of P kk)\<rparr>)"
  using assms
  by (simp add: create_fine_team_def Let_def GB_hash_table_size_Some fold_put_fine team_tasks_def
      team_Bflops2_def)

lemma length_write_tasks [simp]: "length (write_tasks TL i ts) = length TL"
  by (induction ts arbitrary: TL i) auto

lemma nth_write_tasks:
  "j < length TL \<Longrightarrow>
   write_tasks TL i ts ! j = (if i \<le> j \<and> j < i + length ts then ts ! (j - i) else TL ! j)"
proof (induction ts arbitrary: TL i)
  case Nil
  then show ?case by auto
next
  case (Cons t ts)
  have "write_tasks (TL [i := t]) (Suc i) ts ! j =
      (if Suc i \<le> j \<and> j < Suc i + length ts then ts ! (j - Suc i) else (TL [i := t]) ! j)"
    using Cons.prems by (intro Cons.IH) simp
  then show ?case
    using Cons.prems by (auto simp: nth_Cons' nth_list_update)
qed

lemma holds_put_coarse:
  assumes "holds_tasks NF L s (F, Cs, B2)" "0 \<le> NF"
  shows "\<exists>s'. put_coarse P a b s = Some s'
     \<and> holds_tasks NF L s'
         (F, Cs @ [coarse_task P a b (NF + int (length Cs)) (p_chunk P) (p_nthreads_max P)], B2)"
proof -
  let ?t = "coarse_task P a b (ps_nc s) (p_chunk P) (p_nthreads_max P)"
  let ?s' = "s\<lparr>ps_TaskList := (ps_TaskList s) [nat (ps_nc s) := ?t], ps_nc := ps_nc s + 1\<rparr>"
  have nc: "ps_nc s = NF + int (length Cs)" "nat (ps_nc s) = nat NF + length Cs"
    using assms by (simp_all add: holds_tasks_def nat_add_distrib)
  have "holds_tasks NF L ?s' (F, Cs @ [?t], B2)"
    using assms nc
    by (auto simp: holds_tasks_def nth_list_update nth_append)
  then show ?thesis using nc by (simp add: put_coarse_eq)
qed

lemma holds_fine_team:
  assumes "holds_tasks NF L s (F, Cs, B2)" "0 \<le> NF" "nat NF \<le> L" "1 \<le> jflops_of P kk"
  shows "\<exists>s'. create_fine_team P kk s = Some s'
     \<and> holds_tasks NF L s' (F @ team_tasks P kk B2 (int (length F)), Cs, team_Bflops2 P kk B2)"
proof -
  let ?T = "team_tasks P kk B2 (int (length F))"
  let ?s' = "s\<lparr>ps_Bflops2 := team_Bflops2 P kk (ps_Bflops2 s),
             ps_TaskList := write_tasks (ps_TaskList s) (nat (ps_nf s))
                              (team_tasks P kk (ps_Bflops2 s) (ps_nf s)),
             ps_nf := ps_nf s + max 0 (team_size_of P kk)\<rparr>"
  have nf: "ps_nf s = int (length F)" "ps_Bflops2 s = B2" "ps_nc s = NF + int (length Cs)"
      "length (ps_TaskList s) = L"
    using assms(1) by (simp_all add: holds_tasks_def)
  have lenT: "int (length ?T) = max 0 (team_size_of P kk)"
    by (simp add: team_tasks_def)
  have eq: "create_fine_team P kk s = Some ?s'"
    using create_fine_team_eq [OF assms(4), of s] nf by simp
  have "holds_tasks NF L ?s' (F @ ?T, Cs, team_Bflops2 P kk B2)"
    unfolding holds_tasks_def prod.case
  proof (intro conjI impI allI)
    show "ps_nf ?s' = int (length (F @ ?T))" using nf lenT by simp
    show "ps_nc ?s' = NF + int (length Cs)" using nf by simp
    show "ps_Bflops2 ?s' = team_Bflops2 P kk B2" using nf by simp
    show "length (ps_TaskList ?s') = L" using nf by simp
  next
    fix i assume le: "int (length (F @ ?T)) \<le> NF" and i: "i < length (F @ ?T)"
    from le have leF: "int (length F) \<le> NF" by simp
    from le i assms(3) have iL: "i < L" by simp
    have old: "\<forall>i < length F. ps_TaskList s ! i = F ! i"
      using assms(1) leF by (simp add: holds_tasks_def)
    show "ps_TaskList ?s' ! i = (F @ ?T) ! i"
      using nf iL i old by (simp add: nth_write_tasks nth_append)
  next
    fix i assume le: "int (length (F @ ?T)) \<le> NF" and i: "i < length Cs" and iL: "nat NF + i < L"
    from le have leF: "int (length F) \<le> NF" by simp
    have old: "ps_TaskList s ! (nat NF + i) = Cs ! i"
      using assms(1) leF i iL by (simp add: holds_tasks_def)
    from le have "length F + length ?T \<le> nat NF" by simp
    then show "ps_TaskList ?s' ! (nat NF + i) = Cs ! i"
      using nf iL old by (simp add: nth_write_tasks)
  qed
  with eq show ?thesis by blast
qed

lemma holds_create_vector:
  assumes "holds_tasks NF L s (F, Cs, B2)" "0 \<le> NF" "nat NF \<le> L" "0 \<le> p_target_task_size P"
  shows "\<exists>s'. create_vector P kk (Some (kcs, s)) =
            Some (fst (emit_vector P NF kk (kcs, F, Cs, B2)), s')
     \<and> holds_tasks NF L s' (snd (emit_vector P NF kk (kcs, F, Cs, B2)))"
proof (cases "costly_vector P kk")
  case False
  with assms(1) show ?thesis by (simp add: create_vector_def emit_vector_def)
next
  case True
  note jf = costly_vector_jflops [OF True assms(4)]
  let ?Cs = "if kcs < kk
             then Cs @ [coarse_task P kcs (kk - 1) (NF + int (length Cs)) (p_chunk P) (p_nthreads_max P)]
             else Cs"
  have "\<exists>s1. (if kcs < kk then put_coarse P kcs (kk - 1) s else Some s) = Some s1
          \<and> holds_tasks NF L s1 (F, ?Cs, B2)"
    using holds_put_coarse [OF assms(1,2), of P kcs "kk - 1"] assms(1) by auto
  then obtain s1 where s1: "(if kcs < kk then put_coarse P kcs (kk - 1) s else Some s) = Some s1"
      "holds_tasks NF L s1 (F, ?Cs, B2)" by blast
  from holds_fine_team [OF s1(2) assms(2,3) jf]
  obtain s2 where s2: "create_fine_team P kk s1 = Some s2"
      "holds_tasks NF L s2 (F @ team_tasks P kk B2 (int (length F)), ?Cs, team_Bflops2 P kk B2)"
    by blast
  have "create_vector P kk (Some (kcs, s)) = Some (kk + 1, s2)"
    using True s1(1) s2(1) by (simp add: create_vector_def)
  moreover have "emit_vector P NF kk (kcs, F, Cs, B2) =
      (kk + 1, F @ team_tasks P kk B2 (int (length F)), ?Cs, team_Bflops2 P kk B2)"
    using True by (simp add: emit_vector_def)
  ultimately show ?thesis using s2(2) by simp
qed

lemma holds_fold_vectors:
  assumes "holds_tasks NF L s (F, Cs, B2)" "0 \<le> NF" "nat NF \<le> L" "0 \<le> p_target_task_size P"
  shows "\<exists>s'. fold (create_vector P) xs (Some (kcs, s)) =
            Some (fst (fold (emit_vector P NF) xs (kcs, F, Cs, B2)), s')
     \<and> holds_tasks NF L s' (snd (fold (emit_vector P NF) xs (kcs, F, Cs, B2)))"
  using assms(1)
proof (induction xs arbitrary: kcs s F Cs B2)
  case Nil
  then show ?case by simp
next
  case (Cons x xs)
  obtain kcs' F' Cs' B2' where e: "emit_vector P NF x (kcs, F, Cs, B2) = (kcs', F', Cs', B2')"
    by (cases "emit_vector P NF x (kcs, F, Cs, B2)") auto
  from holds_create_vector [OF Cons.prems assms(2,3,4), of x kcs] e
  obtain s1 where s1: "create_vector P x (Some (kcs, s)) = Some (kcs', s1)"
      "holds_tasks NF L s1 (F', Cs', B2')" by auto
  from Cons.IH [OF s1(2), of kcs'] show ?case
    by (simp add: s1(1) e)
qed

lemma holds_create_chunk:
  assumes "holds_tasks NF L s st" "0 \<le> NF" "nat NF \<le> L" "0 \<le> p_target_task_size P"
  shows "\<exists>s'. create_chunk P taskid (Some s) = Some s' \<and> holds_tasks NF L s' (emit_chunk P NF taskid st)"
proof -
  obtain F Cs B2 where st: "st = (F, Cs, B2)" by (cases st) auto
  let ?kfirst = "p_Coarse_initial P taskid" and ?klast = "p_Coarse_initial P (taskid + 1)"
  show ?thesis
  proof (cases "?klast - ?kfirst = 0")
    case True
    then show ?thesis using assms(1) by (simp add: create_chunk_def emit_chunk_def st Let_def)
  next
    case ne: False
    show ?thesis
    proof (cases "chunk_too_costly P ?kfirst ?klast")
      case False
      from holds_put_coarse [OF assms(1) [unfolded st] assms(2), of P ?kfirst "?klast - 1"]
      show ?thesis using ne False by (simp add: create_chunk_def emit_chunk_def st Let_def)
    next
      case True
      obtain kcs F' Cs' B2' where e:
        "fold (emit_vector P NF) [?kfirst..?klast - 1] (?kfirst, F, Cs, B2) = (kcs, F', Cs', B2')"
        by (cases "fold (emit_vector P NF) [?kfirst..?klast - 1] (?kfirst, F, Cs, B2)") auto
      from holds_fold_vectors [OF assms(1) [unfolded st] assms(2,3,4), of "[?kfirst..?klast - 1]" ?kfirst] e
      obtain s1 where s1: "fold (create_vector P) [?kfirst..?klast - 1] (Some (?kfirst, s)) = Some (kcs, s1)"
        "holds_tasks NF L s1 (F', Cs', B2')" by auto
      show ?thesis
      proof (cases "kcs < ?klast")
        case True
        from holds_put_coarse [OF s1(2) assms(2), of P kcs "?klast - 1"]
        show ?thesis using ne \<open>chunk_too_costly P ?kfirst ?klast\<close> True s1(1) e
          by (simp add: create_chunk_def emit_chunk_def st Let_def)
      next
        case False
        then show ?thesis using ne \<open>chunk_too_costly P ?kfirst ?klast\<close> s1 e
          by (simp add: create_chunk_def emit_chunk_def st Let_def)
      qed
    qed
  qed
qed

lemma create_chunk_None [simp]: "create_chunk P taskid None = None"
  by (simp add: create_chunk_def)

lemma holds_fold_chunks:
  assumes "holds_tasks NF L s st" "0 \<le> NF" "nat NF \<le> L" "0 \<le> p_target_task_size P"
  shows "\<exists>s'. fold (create_chunk P) xs (Some s) = Some s'
     \<and> holds_tasks NF L s' (fold (emit_chunk P NF) xs st)"
  using assms(1)
proof (induction xs arbitrary: s st)
  case Nil
  then show ?case by simp
next
  case (Cons x xs)
  from holds_create_chunk [OF Cons.prems assms(2,3,4), of x]
  obtain s1 where s1: "create_chunk P x (Some s) = Some s1"
      "holds_tasks NF L s1 (emit_chunk P NF x st)" by blast
  from Cons.IH [OF s1(2)] show ?case by (simp add: s1(1))
qed

subsection \<open>The first pass counts what the second pass creates\<close>

lemma team_size_pos:
  assumes "costly_vector P kk" "0 \<le> p_target_task_size P" "0 < p_target_fine_size P"
  shows "1 \<le> team_size_of P kk"
proof -
  have "0 < real_of_int (jflops_of P kk)"
    using costly_vector_jflops [OF assms(1,2)] by simp
  then have "0 < real_of_int (jflops_of P kk) / p_target_fine_size P"
    using assms(3) by simp
  then have "0 < \<lceil>real_of_int (jflops_of P kk) / p_target_fine_size P\<rceil>"
    by (simp add: ceiling_less_iff less_ceiling_iff)
  then show ?thesis by (simp add: team_size_of_def)
qed

lemma length_team_tasks: "int (length (team_tasks P kk B2 ldr)) = max 0 (team_size_of P kk)"
  by (simp add: team_tasks_def)

lemma count_vector_agree:
  assumes "counts_agree c st" "0 \<le> p_target_task_size P" "0 < p_target_fine_size P"
  shows "counts_agree (count_vector P kk c) (emit_vector P NF kk st)"
proof -
  obtain kcs nc nf mb where c: "c = (kcs, nc, nf, mb)" by (cases c) auto
  obtain kcs' F Cs B2 where st: "st = (kcs', F, Cs, B2)" by (cases st) auto
  show ?thesis
  proof (cases "costly_vector P kk")
    case False
    with assms(1) show ?thesis by (simp add: count_vector_def emit_vector_def c st)
  next
    case True
    from team_size_pos [OF True assms(2,3)] have "max 0 (team_size_of P kk) = team_size_of P kk"
      by simp
    with True assms(1) show ?thesis
      by (simp add: count_vector_def emit_vector_def c st counts_agree_def length_team_tasks)
  qed
qed

lemma fold_count_vector_agree:
  assumes "counts_agree c st" "0 \<le> p_target_task_size P" "0 < p_target_fine_size P"
  shows "counts_agree (fold (count_vector P) xs c) (fold (emit_vector P NF) xs st)"
  using assms(1)
proof (induction xs arbitrary: c st)
  case Nil
  then show ?case by simp
next
  case (Cons x xs)
  from Cons.IH [OF count_vector_agree [OF Cons.prems assms(2,3)]] show ?case by simp
qed

lemma count_chunk_agree:
  assumes "nc = int (length Cs)" "nf = int (length F)"
    "0 \<le> p_target_task_size P" "0 < p_target_fine_size P"
  shows "case (count_chunk P taskid (nc, nf, mb), emit_chunk P NF taskid (F, Cs, B2)) of
           ((nc', nf', mb'), (F', Cs', B2')) \<Rightarrow> nc' = int (length Cs') \<and> nf' = int (length F')"
proof -
  let ?kfirst = "p_Coarse_initial P taskid" and ?klast = "p_Coarse_initial P (taskid + 1)"
  let ?c = "fold (count_vector P) [?kfirst..?klast - 1] (?kfirst, nc, nf, mb)"
  let ?e = "fold (emit_vector P NF) [?kfirst..?klast - 1] (?kfirst, F, Cs, B2)"
  have "counts_agree (?kfirst, nc, nf, mb) (?kfirst, F, Cs, B2)"
    using assms(1,2) by (simp add: counts_agree_def)
  from fold_count_vector_agree [OF this assms(3,4)]
  have ag: "counts_agree ?c ?e" .
  obtain a b c d where c: "?c = (a, b, c, d)" by (cases ?c) auto
  obtain a' F' Cs' B2' where e: "?e = (a', F', Cs', B2')" by (cases ?e) auto
  from ag c e have "a = a'" "b = int (length Cs')" "c = int (length F')"
    by (simp_all add: counts_agree_def)
  then show ?thesis
    using assms(1,2) c e
    by (simp add: count_chunk_def emit_chunk_def Let_def)
qed

lemma fold_count_chunk_agree:
  assumes "nc = int (length Cs)" "nf = int (length F)"
    "0 \<le> p_target_task_size P" "0 < p_target_fine_size P"
  shows "case (fold (count_chunk P) xs (nc, nf, mb), fold (emit_chunk P NF) xs (F, Cs, B2)) of
           ((nc', nf', mb'), (F', Cs', B2')) \<Rightarrow> nc' = int (length Cs') \<and> nf' = int (length F')"
  using assms(1,2)
proof (induction xs arbitrary: nc nf mb F Cs B2)
  case Nil
  then show ?case by simp
next
  case (Cons x xs)
  obtain nc1 nf1 mb1 where c: "count_chunk P x (nc, nf, mb) = (nc1, nf1, mb1)"
    by (cases "count_chunk P x (nc, nf, mb)") auto
  obtain F1 Cs1 B21 where e: "emit_chunk P NF x (F, Cs, B2) = (F1, Cs1, B21)"
    by (cases "emit_chunk P NF x (F, Cs, B2)") auto
  from count_chunk_agree [OF Cons.prems assms(3,4), of x mb NF B2] c e
  have "nc1 = int (length Cs1)" "nf1 = int (length F1)" by simp_all
  from Cons.IH [OF this, of mb1 B21] show ?case by (simp add: c e)
qed

text \<open>The task list is the fine tasks followed by the coarse tasks\<close>

lemma create_tasks_emit:
  assumes "p_ntasks_initial P > 1" "0 \<le> p_target_task_size P" "0 < p_target_fine_size P"
    and "count_tasks P = (NC, NF, MB)"
    and "emit_tasks P NF B2 = (F, Cs, B2')"
  shows "create_tasks P B2 = Some (F @ Cs) \<and> NC = int (length Cs) \<and> NF = int (length F)"
proof -
  have cnt: "fold (count_chunk P) [0..p_ntasks_initial P - 1] (0, 0, 0) = (NC, NF, MB)"
    using assms(1,4) by (simp add: count_tasks_def)
  have emt: "fold (emit_chunk P NF) [0..p_ntasks_initial P - 1] ([], [], B2) = (F, Cs, B2')"
    using assms(5) by (simp add: emit_tasks_def)
  from fold_count_chunk_agree [OF _ _ assms(2,3), of 0 "[]" 0 "[]" "[0..p_ntasks_initial P - 1]" 0 NF B2]
    cnt emt
  have len: "NC = int (length Cs)" "NF = int (length F)" by simp_all
  let ?L = "nat (NC + NF)"
  let ?s0 = "\<lparr>ps_nf = 0, ps_nc = NF, ps_TaskList = replicate ?L calloc_task, ps_Bflops2 = B2\<rparr>"
  have h0: "holds_tasks NF ?L ?s0 ([], [], B2)" by (simp add: holds_tasks_def)
  have NF0: "0 \<le> NF" "nat NF \<le> ?L" using len by simp_all
  from holds_fold_chunks [OF h0 NF0 assms(2), of "[0..p_ntasks_initial P - 1]"] emt
  obtain s' where s': "fold (create_chunk P) [0..p_ntasks_initial P - 1] (Some ?s0) = Some s'"
      "holds_tasks NF ?L s' (F, Cs, B2')" by auto
  have L: "?L = length F + length Cs" using len by simp
  have "ps_TaskList s' = F @ Cs"
  proof (rule nth_equalityI)
    show "length (ps_TaskList s') = length (F @ Cs)"
      using s'(2) L by (simp add: holds_tasks_def)
  next
    fix i assume "i < length (ps_TaskList s')"
    then have i: "i < length F + length Cs" using s'(2) L by (simp add: holds_tasks_def)
    have fine: "\<forall>i < length F. ps_TaskList s' ! i = F ! i"
      and coarse: "\<forall>i < length Cs. nat NF + i < ?L \<longrightarrow> ps_TaskList s' ! (nat NF + i) = Cs ! i"
      using s'(2) len by (simp_all add: holds_tasks_def)
    show "ps_TaskList s' ! i = (F @ Cs) ! i"
    proof (cases "i < length F")
      case True
      with fine show ?thesis by (simp add: nth_append)
    next
      case False
      then have j: "i - length F < length Cs" and ij: "nat NF + (i - length F) = i"
        using i len by simp_all
      from coarse j have "nat NF + (i - length F) < ?L \<longrightarrow>
          ps_TaskList s' ! (nat NF + (i - length F)) = Cs ! (i - length F)" by blast
      then have "ps_TaskList s' ! i = Cs ! (i - length F)"
        unfolding ij using i L by simp
      with False show ?thesis by (simp add: nth_append)
    qed
  qed
  moreover have "create_tasks P B2 = map_option ps_TaskList
      (fold (create_chunk P) [0..p_ntasks_initial P - 1] (Some ?s0))"
    using assms(1,4) by (simp add: create_tasks_def Let_def add.commute)
  ultimately show ?thesis using s'(1) len by simp
qed





subsection \<open>Sizes of the hash tables of the tasks\<close>















lemma create_single_eq:
  "create_single P TL =
     Some (if p_bnvec P = 1
           then (TL [0 := coarse_task P 0 (p_bnvec P - 1) 0 1 1])
                  [0 := ((TL [0 := coarse_task P 0 (p_bnvec P - 1) 0 1 1]) ! 0)
                          \<lparr>start := 0, end_entry := GBP (p_Bp P) 1 (p_bvlen P) - 1, vector := 0\<rparr>]
           else TL [0 := coarse_task P 0 (p_bnvec P - 1) 0 1 1])"
  using GB_create_coarse_task_eq [of P 0 "p_bnvec P - 1" TL 0 1 1]
  by (simp add: create_single_def)


lemma partition_params_fields [simp]:
  "p_helpers (partition_params P Bflops tot hint) = p_helpers P"
  "p_Bflops (partition_params P Bflops tot hint) = Bflops"
  "p_Bp (partition_params P Bflops tot hint) = p_Bp P"
  "p_bvlen (partition_params P Bflops tot hint) = p_bvlen P"
  "p_bnvec (partition_params P Bflops tot hint) = p_bnvec P"
  "p_cvlen (partition_params P Bflops tot hint) = p_cvlen P"
  "p_chunk (partition_params P Bflops tot hint) = p_chunk P"
  "p_nthreads_max (partition_params P Bflops tot hint) = p_nthreads_max P"
  "p_AxB_method (partition_params P Bflops tot hint) = hint"
  by (simp_all add: partition_params_def Let_def)

lemma partition_params_sizes:
  assumes "0 < p_chunk P"
  shows "0 < p_target_task_size (partition_params P Bflops tot hint)"
    and "0 < p_target_fine_size (partition_params P Bflops tot hint)"
  using assms
  by (simp_all add: partition_params_def Let_def target_task_size_of_def target_fine_size_of_def
      less_max_iff_disj)

lemma create_tasks_Some:
  assumes "0 < p_target_task_size P" "0 < p_target_fine_size P"
  shows "\<exists>TL. create_tasks P B2 = Some TL"
proof (cases "p_ntasks_initial P > 1")
  case True
  obtain NC NF MB where c: "count_tasks P = (NC, NF, MB)" by (cases "count_tasks P") auto
  obtain F Cs B2' where e: "emit_tasks P NF B2 = (F, Cs, B2')" by (cases "emit_tasks P NF B2") auto
  from create_tasks_emit [OF True _ assms(2) c e] assms(1) show ?thesis by simp
next
  case False
  then have "create_tasks P B2 = create_single P [calloc_task]"
    by (simp add: create_tasks_def count_tasks_def)
  then show ?thesis by (simp add: create_single_eq)
qed

lemma saxpy3_tasks_Some:
  assumes "0 < p_chunk P"
  shows "\<exists>r. saxpy3_tasks K P d Mask_struct C s = Some r"
proof -
  let ?P = "partition_params P (md_Bflops d) (md_total_flops d) (md_AxB_method d)"
  from create_tasks_Some [OF partition_params_sizes [OF assms], of "md_Bflops d" "md_total_flops d"
      "md_AxB_method d" "c_Bflops2_init K"]
  obtain TL where "create_tasks ?P (c_Bflops2_init K) = Some TL" by blast
  then show ?thesis
    by (simp add: saxpy3_tasks_def Let_def split: prod.splits)
qed

lemma GB_AxB_saxpy3_Some:
  assumes "0 < p_chunk P"
  shows "\<exists>r. GB_AxB_saxpy3 K P M Mask_comp Mask_struct hint = Some r"
proof -
  have "\<exists>r. saxpy3_main K P M Mask_comp Mask_struct hint = Some r"
    using saxpy3_tasks_Some [OF assms, of K]
    by (auto simp: saxpy3_main_def Let_def split: prod.splits sum.splits)
  then show ?thesis
    by (auto simp: GB_AxB_saxpy3_def split: option.splits)
qed

text \<open>
  Claim C9. With a positive \<open>chunk\<close>, the logarithm in the hash sizer is never taken of
  zero or of a negative number: the coarse task constructor clamps \<open>flmax\<close> to at least
  1, a vector that gets a team of fine tasks has at least one flop, the partitioner
  always returns its tasks, and so does the whole function.
\<close>

theorem hash_sizer_flmax_at_least_1:
  assumes "0 < p_chunk P"
  shows "1 \<le> coarse_flmax H Bflops kfirst klast chunk nthreads_max
     \<and> GB_create_coarse_task H kfirst klast TL taskid Bflops cvlen chunk nthreads_max hint \<noteq> None
     \<and> (costly_vector (partition_params P Bflops total_flops hint) kk
          \<longrightarrow> 1 \<le> jflops_of (partition_params P Bflops total_flops hint) kk
            \<and> GB_hash_table_size (jflops_of (partition_params P Bflops total_flops hint) kk)
                 cvlen hint \<noteq> None)
     \<and> create_tasks (partition_params P Bflops total_flops hint) B2 \<noteq> None
     \<and> GB_AxB_saxpy3 K P M Mask_comp Mask_struct hint \<noteq> None"
proof -
  let ?P = "partition_params P Bflops total_flops hint"
  note sz = partition_params_sizes [OF assms, of Bflops total_flops hint]
  have 1: "1 \<le> coarse_flmax H Bflops kfirst klast chunk nthreads_max" by (rule coarse_flmax_ge1)
  have 2: "GB_create_coarse_task H kfirst klast TL taskid Bflops cvlen chunk nthreads_max hint \<noteq> None"
    using 1 by (simp add: GB_create_coarse_task_def Let_def GB_hash_table_size_Some)
  have 3: "1 \<le> jflops_of ?P kk \<and> GB_hash_table_size (jflops_of ?P kk) cvlen hint \<noteq> None"
    if "costly_vector ?P kk"
    using costly_vector_jflops [OF that] sz(1) by (simp add: GB_hash_table_size_Some)
  have 4: "create_tasks ?P B2 \<noteq> None" using create_tasks_Some [OF sz, of B2] by auto
  have 5: "GB_AxB_saxpy3 K P M Mask_comp Mask_struct hint \<noteq> None"
    using GB_AxB_saxpy3_Some [OF assms, of K M Mask_comp Mask_struct hint] by auto
  show ?thesis using 1 2 3 4 5 by blast
qed


subsection \<open>The ranges of the coarse tasks\<close>









lemma ex2_facts:
  "0 < p_chunk ex2_params"
  "p_ntasks_initial ex2_part > 1"
  "0 < p_target_task_size ex2_part"
  "0 < p_target_fine_size ex2_part"
  "costly_vector ex2_part 1"
  "split_vectors ex2_part = [1]"
  "coarse_ranges ex2_part = [(0, 0), (2, 2), (3, 5)]"
  "map vector ex2_tasks = [1, 1, 1, - 1, - 1, - 1]"
  "map hsize ex2_tasks = [32, 32, 32, 16, 32, 16]"
  "map (\<lambda>t. (start t, end_entry t)) ex2_tasks = [(5, 8), (9, 12), (13, 17), (0, 0), (2, 2), (3, 5)]"
  "jflops_of ex2_part 1 = 13"
  "length ex2_tasks = 6"
  "hsize (ex2_tasks ! 0) = 32"
  "p_cvlen ex2_params = 2000"
  "GB_hash_table_size 13 2000 GxB_DEFAULT = Some 32"
  by code_simp+


text \<open>
  Claim C9 on the second example: the vector with 13 flops is split and its table is
  sized for 13.
\<close>

theorem hash_sizer_flmax_at_least_1_witness:
  "0 < p_chunk ex2_params \<and> costly_vector ex2_part 1 \<and> 1 \<le> jflops_of ex2_part 1
   \<and> GB_hash_table_size (jflops_of ex2_part 1) 2000 GxB_DEFAULT = Some 32
   \<and> create_tasks ex2_part (\<lambda>k. 0) = Some ex2_tasks"
proof -
  have "create_tasks (partition_params ex2_params ex2_Bflops 40 GxB_DEFAULT) (\<lambda>k. 0) \<noteq> None"
    by (rule hash_sizer_flmax_at_least_1 [OF ex2_facts(1), THEN conjunct2, THEN conjunct2,
          THEN conjunct2, THEN conjunct1])
  then have "create_tasks ex2_part (\<lambda>k. 0) = Some ex2_tasks"
    by (auto simp: ex2_tasks_def ex2_part_def)
  with ex2_facts(1,5,11,15) show ?thesis by simp
qed



lemma dom_ins: "dom (ins add it m) = insert (fst it) (dom m)"
  by (auto simp: ins_def accum_def)

lemma dom_fold_ins: "dom (fold (ins add) cs m) = fst ` set cs \<union> dom m"
  by (induction cs arbitrary: m) (auto simp: dom_ins)

lemma dom_col_map: "dom (col_map add cs) = fst ` set cs"
  by (simp add: col_map_def dom_fold_ins)

lemma fold_ins_row:
  "fold (ins add) cs m i = fold (accum add) (map snd (filter (\<lambda>c. fst c = i) cs)) (m i)"
  by (induction cs arbitrary: m) (auto simp: ins_def)

lemma col_map_row:
  "col_map add cs i = fold (accum add) (map snd (filter (\<lambda>c. fst c = i) cs)) None"
  by (simp add: col_map_def fold_ins_row)

lemma gus_update_abs: "gus_abs mark (gus_update add mark it T) = ins add it (gus_abs mark T)"
  by (cases T; cases it) (auto simp: gus_abs_def gus_update_def ins_def accum_def fun_eq_iff)

lemma gus_fold_abs:
  "gus_abs mark (fold (gus_update add mark) cs T) = fold (ins add) cs (gus_abs mark T)"
  by (induction cs arbitrary: T) (simp_all add: gus_update_abs)

lemma gus_abs_fresh: "\<forall>i. hf i \<noteq> mark \<Longrightarrow> gus_abs mark (hf, hx) = Map.empty"
  by (simp add: gus_abs_def fun_eq_iff)

lemma gus_update_flags:
  "fst (gus_update add mark it T) s = mark \<or> fst (gus_update add mark it T) s = fst T s"
  by (cases T; cases it) (simp add: gus_update_def)

lemma gus_fold_flags:
  "fst (fold (gus_update add mark) cs T) s = mark \<or> fst (fold (gus_update add mark) cs T) s = fst T s"
proof (induction cs arbitrary: T)
  case Nil
  show ?case by simp
next
  case (Cons c cs)
  from Cons.IH [of "gus_update add mark c T"] gus_update_flags [of add mark c T s]
  show ?case by auto
qed

lemma sorted_wrt_map_filter_upt:
  "sorted_wrt (<) (map fst (map (\<lambda>i. (i, f i)) (filter P [0..<n])))"
proof -
  have "map fst (map (\<lambda>i. (i, f i)) (filter P [0..<n])) = filter P [0..<n]"
    by (simp add: comp_def)
  moreover have "sorted_wrt (<) (filter P [0..<n])"
    by (rule sorted_wrt_filter) (simp add: sorted_wrt_upt)
  ultimately show ?thesis by simp
qed

lemma map_of_map_filter_upt:
  "map_of (map (\<lambda>i. (i, f i)) (filter P [0..<n])) = (\<lambda>i. if i < n \<and> P i then Some (f i) else None)"
proof
  fix i
  show "map_of (map (\<lambda>i. (i, f i)) (filter P [0..<n])) i = (if i < n \<and> P i then Some (f i) else None)"
  proof (cases "i < n \<and> P i")
    case True
    then have "(i, f i) \<in> set (map (\<lambda>i. (i, f i)) (filter P [0..<n]))" by auto
    moreover have "distinct (map fst (map (\<lambda>i. (i, f i)) (filter P [0..<n])))"
      by (simp add: comp_def)
    ultimately show ?thesis using True by simp
  next
    case False
    then have "i \<notin> fst ` set (map (\<lambda>i. (i, f i)) (filter P [0..<n]))" by auto
    then have "map_of (map (\<lambda>i. (i, f i)) (filter P [0..<n])) i = None"
      by (rule iffD2 [OF map_of_eq_None_iff])
    then show ?thesis by (simp only: if_not_P [OF False])
  qed
qed

lemma gus_gather_spec:
  "sorted_wrt (<) (map fst (gus_gather cvlen mark T))
   \<and> map_of (gus_gather cvlen mark T) = gus_abs mark T |` {..<cvlen}"
proof (cases T)
  case (Pair hf hx)
  have "map_of (gus_gather cvlen mark (hf, hx)) = gus_abs mark (hf, hx) |` {..<cvlen}"
    by (auto simp: gus_gather_def map_of_map_filter_upt gus_abs_def restrict_map_def fun_eq_iff)
  then show ?thesis using Pair sorted_wrt_map_filter_upt [of "hx" "\<lambda>i. hf i = mark" cvlen]
    by (simp add: gus_gather_def)
qed

lemma hash_probe_result:
  "hash_probe n h s i mark hf hi = Some s' \<Longrightarrow> s < h
   \<Longrightarrow> s' < h \<and> \<not> (hf s' = mark \<and> hi s' \<noteq> i)"
proof (induction n arbitrary: s)
  case 0
  then show ?case by simp
next
  case (Suc n)
  show ?case
  proof (cases "hf s = mark \<and> hi s \<noteq> i")
    case True
    with Suc.prems have rec: "hash_probe n h (Suc s mod h) i mark hf hi = Some s'" by simp
    from Suc.prems(2) have "Suc s mod h < h" by simp
    from Suc.IH [OF rec this] show ?thesis .
  next
    case False
    with Suc.prems have "s' = s" by auto
    with False Suc.prems(2) show ?thesis by simp
  qed
qed

lemma hash_probe_other:
  "hf s0 \<noteq> mark \<Longrightarrow> hash_probe n h s i' mark hf hi = Some s' \<Longrightarrow> s' \<noteq> s0
   \<Longrightarrow> hash_probe n h s i' mark (hf (s0 := mark)) (hi (s0 := i)) = Some s'"
proof (induction n arbitrary: s)
  case 0
  then show ?case by simp
next
  case (Suc n)
  show ?case
  proof (cases "hf s = mark \<and> hi s \<noteq> i'")
    case True
    then have ne: "s \<noteq> s0" using Suc.prems(1) by auto
    from True Suc.prems have rec: "hash_probe n h (Suc s mod h) i' mark hf hi = Some s'" by simp
    from Suc.IH [OF Suc.prems(1) rec Suc.prems(3)] True ne show ?thesis by simp
  next
    case False
    with Suc.prems have eq: "s' = s" by auto
    with Suc.prems(3) have "s \<noteq> s0" by simp
    with False have c: "\<not> ((hf (s0 := mark)) s = mark \<and> (hi (s0 := i)) s \<noteq> i')" by simp
    show ?thesis unfolding eq by (subst hash_probe.simps(2)) (simp only: if_not_P [OF c])
  qed
qed

lemma hash_probe_self:
  "hf s0 \<noteq> mark \<Longrightarrow> hash_probe n h s i mark hf hi = Some s0
   \<Longrightarrow> hash_probe n h s i mark (hf (s0 := mark)) (hi (s0 := i)) = Some s0"
proof (induction n arbitrary: s)
  case 0
  then show ?case by simp
next
  case (Suc n)
  show ?case
  proof (cases "hf s = mark \<and> hi s \<noteq> i")
    case True
    then have ne: "s \<noteq> s0" using Suc.prems(1) by auto
    from True Suc.prems have rec: "hash_probe n h (Suc s mod h) i mark hf hi = Some s0" by simp
    from Suc.IH [OF Suc.prems(1) rec] True ne show ?thesis by simp
  next
    case False
    with Suc.prems have eq: "s0 = s" by auto
    then show ?thesis by simp
  qed
qed

lemma hash_probe_None:
  "hash_probe n h s i mark hf hi = None \<Longrightarrow> s < h \<Longrightarrow> d < n \<Longrightarrow> hf ((s + d) mod h) = mark"
proof (induction n arbitrary: s d)
  case 0
  then show ?case by simp
next
  case (Suc n)
  from Suc.prems(1) have c: "hf s = mark \<and> hi s \<noteq> i"
    and rec: "hash_probe n h (Suc s mod h) i mark hf hi = None"
    by (auto split: if_splits)
  show ?case
  proof (cases d)
    case 0
    with c Suc.prems(2) show ?thesis by simp
  next
    case (Suc d')
    with Suc.prems(3) have "d' < n" by simp
    from Suc.prems(2) have "Suc s mod h < h" by simp
    from Suc.IH [OF rec this \<open>d' < n\<close>] have "hf ((Suc s mod h + d') mod h) = mark" .
    moreover have "(Suc s mod h + d') mod h = (s + d) mod h"
      using Suc by (simp add: mod_add_left_eq)
    ultimately show ?thesis by simp
  qed
qed

lemma hash_probe_Some:
  assumes "s < h" "r < h" "hf r \<noteq> mark"
  shows "\<exists>s'. hash_probe h h s i mark hf hi = Some s'"
proof (rule ccontr)
  assume "\<not> (\<exists>s'. hash_probe h h s i mark hf hi = Some s')"
  then have none: "hash_probe h h s i mark hf hi = None" by auto
  let ?d = "(r + h - s) mod h"
  have "?d < h" using assms(1) by simp
  from hash_probe_None [OF none assms(1) this] have "hf ((s + ?d) mod h) = mark" .
  moreover have "(s + ?d) mod h = r"
  proof -
    have "(s + ?d) mod h = (s + (r + h - s)) mod h" by (simp add: mod_add_right_eq)
    also have "s + (r + h - s) = r + h" using assms(1) by simp
    also have "(r + h) mod h = r" using assms(2) by simp
    finally show ?thesis .
  qed
  ultimately show False using assms(3) by simp
qed

lemma hash_rep_unique:
  assumes "hash_rep hashf h mark (hf, hi, hx) m" "s < h" "hf s = mark" "s' < h" "hf s' = mark"
    "hi s = hi s'"
  shows "s = s'"
proof -
  from assms(1) have r: "\<And>q. q < h \<Longrightarrow> hf q = mark
      \<Longrightarrow> hash_probe h h (hashf (hi q) mod h) (hi q) mark hf hi = Some q"
    by (simp add: hash_rep_def)
  from r [OF assms(2,3)] have "hash_probe h h (hashf (hi s') mod h) (hi s') mark hf hi = Some s"
    unfolding assms(6) .
  with r [OF assms(4,5)] show ?thesis by simp
qed

lemma hash_update_rep:
  assumes rep: "hash_rep hashf h mark (hf, hi, hx) m"
    and upd: "hash_update hashf add h mark (i, t) (hf, hi, hx) = Some T'"
  shows "hash_rep hashf h mark T' (ins add (i, t) m)"
proof -
  from upd obtain s where pr: "hash_probe h h (hashf i mod h) i mark hf hi = Some s"
    and T': "T' = (if hf s = mark then (hf, hi, hx (s := add (hx s) t))
                   else (hf (s := mark), hi (s := i), hx (s := t)))"
    by (auto simp: hash_update_def split: option.splits)
  have hpos: "0 < h" using pr by (cases h) auto
  then have "hashf i mod h < h" by simp
  from hash_probe_result [OF pr this] have sh: "s < h" and sres: "\<not> (hf s = mark \<and> hi s \<noteq> i)"
    by auto
  from rep have r1: "\<And>q. q < h \<Longrightarrow> hf q = mark \<Longrightarrow> m (hi q) = Some (hx q)"
    and r2: "\<And>q. q < h \<Longrightarrow> hf q = mark
               \<Longrightarrow> hash_probe h h (hashf (hi q) mod h) (hi q) mark hf hi = Some q"
    and r3: "\<And>j. m j \<noteq> None \<Longrightarrow> \<exists>q < h. hf q = mark \<and> hi q = j"
    by (auto simp: hash_rep_def)
  show ?thesis
  proof (cases "hf s = mark")
    case True
    with sres have his: "hi s = i" by simp
    have T'': "T' = (hf, hi, hx (s := add (hx s) t))" using T' True by simp
    have mi: "m i = Some (hx s)" using r1 [OF sh True] his by simp
    have a: "(ins add (i, t) m) (hi q) = Some ((hx (s := add (hx s) t)) q)"
      if q: "q < h" "hf q = mark" for q
    proof (cases "q = s")
      case True
      then show ?thesis using his mi by (simp add: ins_def accum_def)
    next
      case False
      have "hi q \<noteq> i"
      proof
        assume "hi q = i"
        with his have "hi q = hi s" by simp
        from hash_rep_unique [OF rep q(1,2) sh True this] False show False by simp
      qed
      then show ?thesis using False r1 [OF q] by (simp add: ins_def)
    qed
    have c: "\<exists>q < h. hf q = mark \<and> hi q = j" if "(ins add (i, t) m) j \<noteq> None" for j
    proof (cases "j = i")
      case True
      with sh \<open>hf s = mark\<close> his show ?thesis by auto
    next
      case False
      with that have "m j \<noteq> None" by (simp add: ins_def)
      from r3 [OF this] show ?thesis .
    qed
    show ?thesis unfolding T'' hash_rep_def using a r2 c by simp
  next
    case False
    have T'': "T' = (hf (s := mark), hi (s := i), hx (s := t))" using T' False by simp
    have mi: "m i = None"
    proof (rule ccontr)
      assume "m i \<noteq> None"
      from r3 [OF this] obtain q where q: "q < h" "hf q = mark" "hi q = i" by auto
      from r2 [OF q(1,2)] q(3) pr have "q = s" by simp
      with q(2) False show False by simp
    qed
    have other: "hi q \<noteq> i" if q: "q < h" "hf q = mark" for q
    proof
      assume "hi q = i"
      with r1 [OF q] mi show False by simp
    qed
    have a: "(ins add (i, t) m) ((hi (s := i)) q) = Some ((hx (s := t)) q)
           \<and> hash_probe h h (hashf ((hi (s := i)) q) mod h) ((hi (s := i)) q) mark
               (hf (s := mark)) (hi (s := i)) = Some q"
      if q: "q < h" "(hf (s := mark)) q = mark" for q
    proof (cases "q = s")
      case True
      have "hash_probe h h (hashf i mod h) i mark (hf (s := mark)) (hi (s := i)) = Some s"
        by (rule hash_probe_self [OF False pr])
      then show ?thesis using True mi by (simp add: ins_def accum_def)
    next
      case ne: False
      with q have qm: "hf q = mark" by simp
      note o = other [OF q(1) qm]
      have "hash_probe h h (hashf (hi q) mod h) (hi q) mark (hf (s := mark)) (hi (s := i)) = Some q"
        by (rule hash_probe_other [OF False r2 [OF q(1) qm] ne])
      then show ?thesis using ne o r1 [OF q(1) qm] by (simp add: ins_def)
    qed
    have c: "\<exists>q < h. (hf (s := mark)) q = mark \<and> (hi (s := i)) q = j"
      if "(ins add (i, t) m) j \<noteq> None" for j
    proof (cases "j = i")
      case True
      with sh show ?thesis by (intro exI [of _ s]) simp
    next
      case ne: False
      with that have "m j \<noteq> None" by (simp add: ins_def)
      from r3 [OF this] obtain q where q: "q < h" "hf q = mark" "hi q = j" by auto
      with False have "q \<noteq> s" by auto
      with q show ?thesis by (intro exI [of _ q]) simp
    qed
    show ?thesis unfolding T'' hash_rep_def prod.case using a c by blast
  qed
qed

lemma hash_update_flags:
  assumes "hash_update hashf add h mark it (hf, hi, hx) = Some T'"
  shows "(\<forall>s. fst T' s = mark \<or> fst T' s = hf s)
     \<and> card {s. s < h \<and> fst T' s = mark} \<le> Suc (card {s. s < h \<and> hf s = mark})"
proof -
  obtain i t where it: "it = (i, t)" by (cases it) auto
  from assms obtain s where pr: "hash_probe h h (hashf i mod h) i mark hf hi = Some s"
    and T': "T' = (if hf s = mark then (hf, hi, hx (s := add (hx s) t))
                   else (hf (s := mark), hi (s := i), hx (s := t)))"
    by (auto simp: hash_update_def it split: option.splits)
  have 1: "\<forall>q. fst T' q = mark \<or> fst T' q = hf q" using T' by simp
  have "{q. q < h \<and> fst T' q = mark} \<subseteq> insert s {q. q < h \<and> hf q = mark}"
    using T' by (auto split: if_splits)
  then have "card {q. q < h \<and> fst T' q = mark} \<le> card (insert s {q. q < h \<and> hf q = mark})"
    by (intro card_mono) auto
  also have "\<dots> \<le> Suc (card {q. q < h \<and> hf q = mark})" by (simp add: card_insert_le_m1)
  finally show ?thesis using 1 by simp
qed

lemma hash_update_Some:
  assumes "0 < h" "card {s. s < h \<and> hf s = mark} < h"
  shows "\<exists>T'. hash_update hashf add h mark it (hf, hi, hx) = Some T'"
proof -
  obtain i t where it: "it = (i, t)" by (cases it) auto
  have "\<exists>r < h. hf r \<noteq> mark"
  proof (rule ccontr)
    assume "\<not> (\<exists>r < h. hf r \<noteq> mark)"
    then have "{s. s < h \<and> hf s = mark} = {..<h}" by auto
    with assms(2) show False by simp
  qed
  then obtain r where r: "r < h" "hf r \<noteq> mark" by auto
  have "hashf i mod h < h" using assms(1) by simp
  from hash_probe_Some [where s = "hashf i mod h" and h = h and r = r and hf = hf and mark = mark
      and i = i and hi = hi, OF this r]
  obtain s where "hash_probe h h (hashf i mod h) i mark hf hi = Some s"
    by blast
  then show ?thesis by (simp add: hash_update_def it)
qed

lemma fold_hash_step_None: "fold (hash_step hashf add h mark) cs None = None"
  by (induction cs) (simp_all add: hash_step_def)

lemma hash_fold_rep:
  assumes "hash_rep hashf h mark T m" "fold (hash_step hashf add h mark) cs (Some T) = Some T'"
  shows "hash_rep hashf h mark T' (fold (ins add) cs m) \<and> (\<forall>s. fst T' s = mark \<or> fst T' s = fst T s)"
  using assms
proof (induction cs arbitrary: T m)
  case Nil
  then show ?case by simp
next
  case (Cons c cs)
  obtain hf hi hx where T: "T = (hf, hi, hx)" by (cases T) auto
  obtain i t where c: "c = (i, t)" by (cases c) auto
  show ?case
  proof (cases "hash_update hashf add h mark c T")
    case None
    then have "hash_step hashf add h mark c (Some T) = None" by (simp add: hash_step_def)
    with Cons.prems(2) show ?thesis by (simp add: fold_hash_step_None)
  next
    case (Some T1)
    then have st: "hash_step hashf add h mark c (Some T) = Some T1" by (simp add: hash_step_def)
    with Cons.prems(2) have f: "fold (hash_step hashf add h mark) cs (Some T1) = Some T'"
      by simp
    have "hash_rep hashf h mark T1 (ins add c m)"
      using hash_update_rep [of hashf h mark hf hi hx m add i t T1] Cons.prems(1) Some
      by (simp add: T c)
    from Cons.IH [OF this f] have ih: "hash_rep hashf h mark T' (fold (ins add) cs (ins add c m))"
      "\<And>s. fst T' s = mark \<or> fst T' s = fst T1 s" by auto
    from hash_update_flags [of hashf add h mark c hf hi hx T1] Some
    have fl: "\<And>s. fst T1 s = mark \<or> fst T1 s = fst T s" by (simp add: T)
    have "fst T' s = mark \<or> fst T' s = fst T s" for s
      using ih(2) [of s] fl [of s] by auto
    with ih(1) show ?thesis by simp
  qed
qed

lemma hash_fold_Some:
  assumes "0 < h" "card {s. s < h \<and> fst T s = mark} + length cs < h"
  shows "\<exists>T'. fold (hash_step hashf add h mark) cs (Some T) = Some T'"
  using assms(2)
proof (induction cs arbitrary: T)
  case Nil
  show ?case by (intro exI [of _ T]) simp
next
  case (Cons c cs)
  obtain hf hi hx where T: "T = (hf, hi, hx)" by (cases T) auto
  from Cons.prems have "card {s. s < h \<and> hf s = mark} < h" by (simp add: T)
  from hash_update_Some [OF assms(1) this, of hashf add c hi hx]
  obtain T1 where u: "hash_update hashf add h mark c T = Some T1" by (auto simp: T)
  from hash_update_flags [of hashf add h mark c hf hi hx T1] u
  have "card {s. s < h \<and> fst T1 s = mark} \<le> Suc (card {s. s < h \<and> hf s = mark})" by (simp add: T)
  with Cons.prems have "card {s. s < h \<and> fst T1 s = mark} + length cs < h" by (simp add: T)
  from Cons.IH [OF this] obtain T' where "fold (hash_step hashf add h mark) cs (Some T1) = Some T'"
    by blast
  moreover have "hash_step hashf add h mark c (Some T) = Some T1" by (simp add: hash_step_def u)
  ultimately have "fold (hash_step hashf add h mark) (c # cs) (Some T) = Some T'" by simp
  then show ?case ..
qed

lemma hash_rep_fresh: "\<forall>s. hf s \<noteq> mark \<Longrightarrow> hash_rep hashf h mark (hf, hi, hx) Map.empty"
  by (simp add: hash_rep_def)

lemma hash_items_spec:
  assumes "hash_rep hashf h mark T m"
  shows "distinct (map fst (hash_items h mark T)) \<and> map_of (hash_items h mark T) = m"
proof -
  obtain hf hi hx where T: "T = (hf, hi, hx)" by (cases T) auto
  note rep = assms [unfolded T]
  let ?occ = "filter (\<lambda>s. hf s = mark) [0..<h]"
  have items: "hash_items h mark T = map (\<lambda>s. (hi s, hx s)) ?occ" by (simp add: hash_items_def T)
  have keys: "map fst (hash_items h mark T) = map hi ?occ" by (simp add: items comp_def)
  have inj: "inj_on hi (set ?occ)"
  proof (rule inj_onI)
    fix a b assume "a \<in> set ?occ" "b \<in> set ?occ" "hi a = hi b"
    then show "a = b" using hash_rep_unique [OF rep, of a b] by simp
  qed
  have d: "distinct (map fst (hash_items h mark T))"
    unfolding keys distinct_map using inj by simp
  from rep have r1: "\<And>q. q < h \<Longrightarrow> hf q = mark \<Longrightarrow> m (hi q) = Some (hx q)"
    and r3: "\<And>j. m j \<noteq> None \<Longrightarrow> \<exists>q < h. hf q = mark \<and> hi q = j"
    by (auto simp: hash_rep_def)
  have "map_of (hash_items h mark T) i = m i" for i
  proof (cases "m i")
    case None
    have "i \<notin> fst ` set (hash_items h mark T)"
    proof
      assume "i \<in> fst ` set (hash_items h mark T)"
      then obtain q where "q < h" "hf q = mark" "hi q = i" by (auto simp: items)
      with r1 [of q] None show False by simp
    qed
    then have "map_of (hash_items h mark T) i = None" by (rule iffD2 [OF map_of_eq_None_iff])
    with None show ?thesis by simp
  next
    case (Some v)
    then have "m i \<noteq> None" by simp
    from r3 [OF this] obtain q where q: "q < h" "hf q = mark" "hi q = i" by auto
    with r1 [of q] Some have "hx q = v" by simp
    with q have "(i, v) \<in> set (hash_items h mark T)" by (auto simp: items)
    with d have "map_of (hash_items h mark T) i = Some v" by simp
    with Some show ?thesis by simp
  qed
  then have "map_of (hash_items h mark T) = m" by (rule ext)
  with d show ?thesis by simp
qed

lemma hash_gather_spec:
  assumes "hash_rep hashf h mark T m"
  shows "sorted_wrt (<) (map fst (hash_gather h mark T)) \<and> map_of (hash_gather h mark T) = m"
proof -
  let ?xs = "hash_items h mark T"
  from hash_items_spec [OF assms] have d: "distinct (map fst ?xs)" and mo: "map_of ?xs = m" by auto
  have ms: "mset (sort_key fst ?xs) = mset ?xs" by simp
  then have "mset (map fst (sort_key fst ?xs)) = mset (map fst ?xs)" by (metis mset_map)
  then have d': "distinct (map fst (sort_key fst ?xs))"
    using d mset_eq_imp_distinct_iff by blast
  have "sorted (map fst (sort_key fst ?xs))" by (rule sorted_sort_key)
  with d' have 1: "sorted_wrt (<) (map fst (sort_key fst ?xs))" by (simp add: strict_sorted_iff)
  have "set (sort_key fst ?xs) = set ?xs" by simp
  with d d' have "map_of (sort_key fst ?xs) = map_of ?xs" by (simp add: map_of_inject_set)
  with 1 mo show ?thesis by (simp add: hash_gather_def)
qed

lemma table_column_spec:
  assumes "table_fresh mark T" "table_column hashf add cvlen mark cs T = Some (T', c)"
  shows "column_ok add (table_rows cvlen T) cs c \<and> table_fresh (Suc mark) T'
     \<and> table_slots T' = table_slots T"
proof (cases T)
  case (Gustavson_table hf hx)
  obtain hf' hx' where f: "fold (gus_update add mark) cs (hf, hx) = (hf', hx')"
    by (cases "fold (gus_update add mark) cs (hf, hx)") auto
  from assms(2) have T': "T' = Gustavson_table hf' hx'" and c: "c = gus_gather cvlen mark (hf', hx')"
    by (simp_all add: table_column_def Gustavson_table f)
  from assms(1) have fr: "\<And>s. hf s < mark" by (simp add: table_fresh_def Gustavson_table)
  then have "\<forall>i. hf i \<noteq> mark" by (metis less_irrefl)
  then have "gus_abs mark (hf', hx') = col_map add cs"
    using gus_fold_abs [of mark add cs "(hf, hx)"] by (simp add: f gus_abs_fresh col_map_def)
  with gus_gather_spec [of cvlen mark "(hf', hx')"]
  have 1: "column_ok add (table_rows cvlen T) cs c"
    by (simp add: column_ok_def c table_rows_def table_slots_def Gustavson_table)
  have "hf' s < Suc mark" for s
    using gus_fold_flags [of add mark cs "(hf, hx)" s] fr [of s] by (auto simp: f)
  then have 2: "table_fresh (Suc mark) T'" by (simp add: table_fresh_def T')
  show ?thesis using 1 2 by (simp add: T' Gustavson_table table_slots_def)
next
  case (Hash_table h hf hi hx)
  from assms(2) obtain hf' hi' hx' where
    f: "fold (hash_step hashf add h mark) cs (Some (hf, hi, hx)) = Some (hf', hi', hx')"
    and T': "T' = Hash_table h hf' hi' hx'" and c: "c = hash_gather h mark (hf', hi', hx')"
    by (auto simp: table_column_def Hash_table split: option.splits)
  from assms(1) have fr: "\<And>s. hf s < mark" by (simp add: table_fresh_def Hash_table)
  then have "\<forall>i. hf i \<noteq> mark" by (metis less_irrefl)
  then have "hash_rep hashf h mark (hf, hi, hx) Map.empty" by (rule hash_rep_fresh)
  from hash_fold_rep [OF this f]
  have rep: "hash_rep hashf h mark (hf', hi', hx') (col_map add cs)"
    and fl: "\<And>s. hf' s = mark \<or> hf' s = hf s"
    by (simp_all add: col_map_def)
  from hash_gather_spec [OF rep]
  have 1: "column_ok add (table_rows cvlen T) cs c"
    by (simp add: column_ok_def c table_rows_def table_slots_def Hash_table restrict_map_def)
  have "hf' s < Suc mark" for s
    using fl [of s] fr [of s] by auto
  then have 2: "table_fresh (Suc mark) T'" by (simp add: table_fresh_def T')
  show ?thesis using 1 2 by (simp add: T' Hash_table table_slots_def)
qed

lemma table_column_Some:
  assumes "table_fresh mark T" "case table_slots T of None \<Rightarrow> True | Some h \<Rightarrow> length cs < h"
  shows "\<exists>r. table_column hashf add cvlen mark cs T = Some r"
proof (cases T)
  case (Gustavson_table hf hx)
  then show ?thesis by (simp add: table_column_def split: prod.splits)
next
  case (Hash_table h hf hi hx)
  from assms(2) have len: "length cs < h" by (simp add: table_slots_def Hash_table)
  then have hpos: "0 < h" by simp
  from assms(1) have "\<And>s. hf s < mark" by (simp add: table_fresh_def Hash_table)
  then have "{s. s < h \<and> hf s = mark} = {}" by (auto simp: less_irrefl)
  then have "card {s. s < h \<and> hf s = mark} = 0" by (simp only: card.empty)
  then have "card {s. s < h \<and> fst (hf, hi, hx) s = mark} + length cs < h" using len
    by (simp only: fst_conv add_0)
  from hash_fold_Some [OF hpos this, of hashf add]
  obtain Tr where "fold (hash_step hashf add h mark) cs (Some (hf, hi, hx)) = Some Tr" by blast
  then show ?thesis by (cases Tr) (simp add: table_column_def Hash_table)
qed

lemma new_table_props:
  "table_fresh 1 (new_table Hi0 Hx0 cvlen h)"
  "table_slots (new_table Hi0 Hx0 cvlen h) = (if h = int cvlen then None else Some (nat h))"
  by (simp_all add: new_table_def table_fresh_def table_slots_def)

lemma table_rows_new_table:
  "table_rows cvlen (new_table Hi0 Hx0 cvlen h) = hsize_rows cvlen h"
  by (simp add: table_rows_def new_table_props hsize_rows_def)

lemma fold_coarse_step_None: "fold (coarse_step E) ks None = None"
  by (induction ks) (simp_all add: coarse_step_def)

lemma coarse_step_Some:
  "coarse_step E kk (Some (mark, T, out)) =
     (case table_column (ke_hashf E) (ke_add E) (csc_vlen (ke_A E)) mark
             (task_contribs E (nat kk) (col_positions (ke_B E) (nat kk))) T of
        None \<Rightarrow> None
      | Some (T', c) \<Rightarrow> Some (Suc mark, T', out @ [(nat kk, c)]))"
  by (simp add: coarse_step_def)

lemma coarse_fold_spec:
  assumes "table_fresh mark T"
    and "fold (coarse_step E) ks (Some (mark, T, out)) = Some (mark', T', out')"
  shows "\<exists>new. out' = out @ new
     \<and> list_all2 (plan_ok E)
         (map (\<lambda>kk. (nat kk, table_rows (csc_vlen (ke_A E)) T, col_positions (ke_B E) (nat kk))) ks)
         new"
  using assms
proof (induction ks arbitrary: mark T out)
  case Nil
  then show ?case by simp
next
  case (Cons k ks)
  let ?cs = "task_contribs E (nat k) (col_positions (ke_B E) (nat k))"
  show ?case
  proof (cases "table_column (ke_hashf E) (ke_add E) (csc_vlen (ke_A E)) mark ?cs T")
    case None
    then have "coarse_step E k (Some (mark, T, out)) = None" by (simp add: coarse_step_Some)
    with Cons.prems(2) show ?thesis by (simp add: fold_coarse_step_None)
  next
    case (Some r)
    obtain T1 c where r: "r = (T1, c)" by (cases r) auto
    have st: "coarse_step E k (Some (mark, T, out)) = Some (Suc mark, T1, out @ [(nat k, c)])"
      by (simp add: coarse_step_Some Some r)
    from table_column_spec [OF Cons.prems(1) Some [unfolded r]]
    have ok: "column_ok (ke_add E) (table_rows (csc_vlen (ke_A E)) T) ?cs c"
      and fr: "table_fresh (Suc mark) T1" and sl: "table_slots T1 = table_slots T"
      by auto
    from Cons.prems(2) have f: "fold (coarse_step E) ks (Some (Suc mark, T1, out @ [(nat k, c)]))
        = Some (mark', T', out')" by (simp add: st)
    from Cons.IH [OF fr f] obtain new where new: "out' = (out @ [(nat k, c)]) @ new"
      "list_all2 (plan_ok E)
         (map (\<lambda>kk. (nat kk, table_rows (csc_vlen (ke_A E)) T1, col_positions (ke_B E) (nat kk))) ks)
         new"
      by blast
    have rows: "table_rows (csc_vlen (ke_A E)) T1 = table_rows (csc_vlen (ke_A E)) T"
      by (simp add: table_rows_def sl)
    have "plan_ok E (nat k, table_rows (csc_vlen (ke_A E)) T, col_positions (ke_B E) (nat k)) (nat k, c)"
      using ok by (simp add: plan_ok_def)
    with new(2) have "list_all2 (plan_ok E)
         (map (\<lambda>kk. (nat kk, table_rows (csc_vlen (ke_A E)) T, col_positions (ke_B E) (nat kk))) (k # ks))
         ((nat k, c) # new)"
      by (simp add: rows)
    moreover have "out' = out @ ((nat k, c) # new)" using new(1) by simp
    ultimately show ?thesis by blast
  qed
qed

lemma coarse_task_columns_spec:
  assumes "coarse_task_columns E t = Some out"
  shows "list_all2 (plan_ok E) (coarse_plan (csc_vlen (ke_A E)) (ke_B E) t) out"
proof -
  let ?T0 = "new_table (ke_Hi0 E) (ke_Hx0 E) (csc_vlen (ke_A E)) (hsize t)"
  from assms obtain mark' T' where
    f: "fold (coarse_step E) [start t..end_entry t] (Some (1, ?T0, [])) = Some (mark', T', out)"
    by (auto simp: coarse_task_columns_def)
  from coarse_fold_spec [OF new_table_props(1) f] show ?thesis
    by (simp add: coarse_plan_def table_rows_new_table)
qed

lemma fine_team_columns_spec:
  assumes "fine_team_columns E TL nfine l = Some out"
  shows "list_all2 (plan_ok E) (team_plan (csc_vlen (ke_A E)) TL nfine l) out"
proof -
  let ?j = "nat (vector (TL ! l))"
  let ?T0 = "new_table (ke_Hi0 E) (ke_Hx0 E) (csc_vlen (ke_A E)) (hsize (TL ! l))"
  from assms obtain T' c where
    tc: "table_column (ke_hashf E) (ke_add E) (csc_vlen (ke_A E)) 1
           (task_contribs E ?j (team_positions TL nfine l)) ?T0 = Some (T', c)"
    and out: "out = [(?j, c)]"
    by (auto simp: fine_team_columns_def Let_def)
  from table_column_spec [OF new_table_props(1) tc]
  have "column_ok (ke_add E) (hsize_rows (csc_vlen (ke_A E)) (hsize (TL ! l)))
          (task_contribs E ?j (team_positions TL nfine l)) c"
    by (simp add: table_rows_new_table)
  then show ?thesis by (simp add: team_plan_def out plan_ok_def)
qed

lemma those_Some_map: "those xs = Some ys \<Longrightarrow> xs = map Some ys"
proof (induction xs arbitrary: ys)
  case Nil
  then show ?case by simp
next
  case (Cons x xs)
  then show ?case by (cases x) (auto split: option.splits)
qed

lemma those_map_Some: "those (map Some ys) = Some ys"
  by (induction ys) simp_all

lemma list_all2_concat:
  "list_all2 (list_all2 P) xss yss \<Longrightarrow> list_all2 P (concat xss) (concat yss)"
  by (induction xss yss rule: list_all2_induct) (simp_all add: list_all2_appendI)

lemma saxpy3_columns_spec:
  assumes "saxpy3_columns E TL nfine = Some cols"
  shows "list_all2 (plan_ok E) (column_plan (csc_vlen (ke_A E)) (ke_B E) TL nfine) cols"
proof -
  let ?ls = "filter (\<lambda>l. leader (TL ! l) = int l) [0..<nfine]"
  from assms obtain ys where
    th: "those (map (fine_team_columns E TL nfine) ?ls @ map (coarse_task_columns E) (drop nfine TL))
           = Some ys"
    and cols: "cols = concat ys"
    by (auto simp: saxpy3_columns_def)
  from those_Some_map [OF th]
  have eq: "map (fine_team_columns E TL nfine) ?ls @ map (coarse_task_columns E) (drop nfine TL)
      = map Some ys" .
  let ?plans = "map (team_plan (csc_vlen (ke_A E)) TL nfine) ?ls
      @ map (coarse_plan (csc_vlen (ke_A E)) (ke_B E)) (drop nfine TL)"
  have len: "length ?plans = length ys" using arg_cong [OF eq, of length] by simp
  have "list_all2 (list_all2 (plan_ok E)) ?plans ys"
  proof (rule list_all2_all_nthI [OF len])
    fix n assume n: "n < length ?plans"
    with len have ny: "n < length ys" by simp
    from arg_cong [OF eq, of "\<lambda>xs. xs ! n"] ny
    have nth: "(map (fine_team_columns E TL nfine) ?ls @ map (coarse_task_columns E) (drop nfine TL)) ! n
        = Some (ys ! n)" by simp
    show "list_all2 (plan_ok E) (?plans ! n) (ys ! n)"
    proof (cases "n < length ?ls")
      case True
      with nth have "fine_team_columns E TL nfine (?ls ! n) = Some (ys ! n)"
        by (simp add: nth_append)
      from fine_team_columns_spec [OF this] True show ?thesis by (simp add: nth_append)
    next
      case False
      with n have m: "n - length ?ls < length (drop nfine TL)" by simp
      with nth False have "coarse_task_columns E (drop nfine TL ! (n - length ?ls)) = Some (ys ! n)"
        by (simp add: nth_append)
      from coarse_task_columns_spec [OF this] False m show ?thesis by (simp add: nth_append)
    qed
  qed
  then show ?thesis unfolding column_plan_def cols by (rule list_all2_concat)
qed

lemma length_cumsum_from [simp]: "length (cumsum_from s ns) = Suc (length ns)"
  by (induction ns arbitrary: s) simp_all

lemma nth_cumsum_from:
  "k \<le> length ns \<Longrightarrow> cumsum_from s ns ! k = s + sum_list (take k ns)"
proof (induction ns arbitrary: s k)
  case Nil
  then show ?case by simp
next
  case (Cons n ns)
  then show ?case by (cases k) simp_all
qed

lemma length_write_from [simp]: "length (write_from p xs ys) = length ys"
  by (induction xs arbitrary: p ys) simp_all

lemma write_from_eq:
  "p + length xs \<le> length ys \<Longrightarrow> write_from p xs ys = take p ys @ xs @ drop (p + length xs) ys"
proof (induction xs arbitrary: p ys)
  case Nil
  then show ?case by simp
next
  case (Cons x xs)
  then have p: "p < length ys" by simp
  have "write_from p (x # xs) ys = write_from (Suc p) xs (ys [p := x])" by simp
  also have "\<dots> = take (Suc p) (ys [p := x]) @ xs @ drop (Suc p + length xs) (ys [p := x])"
    using Cons.prems by (intro Cons.IH) simp
  also have "take (Suc p) (ys [p := x]) = take p ys @ [x]"
    using p by (simp add: take_Suc_conv_app_nth)
  also have "drop (Suc p + length xs) (ys [p := x]) = drop (Suc p + length xs) ys"
    by simp
  finally show ?case by simp
qed

lemma fold_write_prefix:
  assumes "length init = sum_list (map length xss)" "m \<le> length xss"
  shows "fold (\<lambda>j. write_from (sum_list (map length (take j xss))) (xss ! j)) [0..<m] init
     = concat (take m xss) @ drop (sum_list (map length (take m xss))) init"
  using assms(2)
proof (induction m)
  case 0
  show ?case by simp
next
  case (Suc m)
  let ?o = "\<lambda>j. sum_list (map length (take j xss))"
  let ?R = "concat (take m xss) @ drop (?o m) init"
  from Suc.prems have m: "m < length xss" by simp
  have tk: "take (Suc m) xss = take m xss @ [xss ! m]" using m by (rule take_Suc_conv_app_nth)
  have oS: "?o (Suc m) = ?o m + length (xss ! m)" by (simp add: tk)
  have "sum_list (map length xss) = ?o (Suc m) + sum_list (map length (drop (Suc m) xss))"
    by (metis append_take_drop_id map_append sum_list_append)
  then have le: "?o m + length (xss ! m) \<le> length init" using assms(1) oS by simp
  have lc: "length (concat (take m xss)) = ?o m" by (simp add: length_concat)
  have lR: "length ?R = length init" using le lc by simp
  have "fold (\<lambda>j. write_from (?o j) (xss ! j)) [0..<Suc m] init
      = write_from (?o m) (xss ! m) ?R"
    using Suc.IH m by simp
  also have "\<dots> = take (?o m) ?R @ xss ! m @ drop (?o m + length (xss ! m)) ?R"
    using le lR by (intro write_from_eq) simp
  also have "take (?o m) ?R = concat (take m xss)" using lc by simp
  also have "drop (?o m + length (xss ! m)) ?R = drop (?o (Suc m)) init"
    using lc by (simp add: oS add.commute)
  finally show ?case by (simp add: tk)
qed

lemma fold_write_columns:
  assumes "length init = sum_list (map length xss)" "length xss = n"
    and "\<And>j. j < n \<Longrightarrow> f j = write_from (sum_list (map length (take j xss))) (xss ! j)"
  shows "fold f [0..<n] init = concat xss"
proof -
  have "fold f [0..<n] init
      = fold (\<lambda>j. write_from (sum_list (map length (take j xss))) (xss ! j)) [0..<n] init"
    by (rule fold_cong) (simp_all add: assms(3))
  also have "\<dots> = concat (take n xss) @ drop (sum_list (map length (take n xss))) init"
    using assms(2) by (intro fold_write_prefix [OF assms(1)]) simp
  finally show ?thesis using assms(1,2) by simp
qed

lemma concat_slice:
  assumes "j < length xss"
  shows "map (nth (concat xss))
           [sum_list (map length (take j xss))..<sum_list (map length (take j xss)) + length (xss ! j)]
     = xss ! j"
proof -
  let ?a = "sum_list (map length (take j xss))"
  have split: "concat xss = concat (take j xss) @ xss ! j @ concat (drop (Suc j) xss)"
    using assms by (metis concat.simps(2) concat_append id_take_nth_drop)
  have la: "length (concat (take j xss)) = ?a" by (simp add: length_concat)
  show ?thesis
  proof (rule nth_equalityI)
    show "length (map (nth (concat xss)) [?a..<?a + length (xss ! j)]) = length (xss ! j)" by simp
  next
    fix n assume "n < length (map (nth (concat xss)) [?a..<?a + length (xss ! j)])"
    then have n: "n < length (xss ! j)" by simp
    then have "map (nth (concat xss)) [?a..<?a + length (xss ! j)] ! n = concat xss ! (?a + n)"
      by simp
    also have "\<dots> = (xss ! j @ concat (drop (Suc j) xss)) ! n"
      by (subst split) (simp add: nth_append la)
    also have "\<dots> = xss ! j ! n" using n by (simp add: nth_append)
    finally show "map (nth (concat xss)) [?a..<?a + length (xss ! j)] ! n = xss ! j ! n" .
  qed
qed

lemma column_ok_keys:
  assumes "column_ok add R cs c"
  shows "set (map fst c) = fst ` set cs \<inter> R"
proof -
  from assms have "map_of c = col_map add cs |` R" by (simp add: column_ok_def)
  then have "dom (map_of c) = dom (col_map add cs |` R)" by simp
  then show ?thesis by (simp add: dom_map_of_conv_image_fst dom_col_map)
qed

lemma column_ok_same_keys:
  assumes "column_ok add R cs c" "column_ok add' R cs' c'" "fst ` set cs = fst ` set cs'"
  shows "map fst c = map fst c'"
proof (rule sorted_distinct_set_unique)
  from assms(1) have "sorted_wrt (<) (map fst c)" by (simp add: column_ok_def)
  then show "sorted (map fst c)" "distinct (map fst c)" by (simp_all add: strict_sorted_iff)
  from assms(2) have "sorted_wrt (<) (map fst c')" by (simp add: column_ok_def)
  then show "sorted (map fst c')" "distinct (map fst c')" by (simp_all add: strict_sorted_iff)
  show "set (map fst c) = set (map fst c')"
    using column_ok_keys [OF assms(1)] column_ok_keys [OF assms(2)] assms(3) by simp
qed

lemma map_fst_contribs:
  "map fst (contribs mul A B allow ps)
     = concat (map (\<lambda>q. map fst (filter (\<lambda>e. allow (fst e)) (col_entries A (fst (entry_at B q))))) ps)"
  by (induction ps) (simp_all add: contribs_def split_def comp_def)

lemma task_contribs_rows:
  assumes "ke_A E1 = ke_A E2" "ke_B E1 = ke_B E2" "ke_allow E1 = ke_allow E2"
  shows "map fst (task_contribs E1 j ps) = map fst (task_contribs E2 j ps)"
  by (simp add: task_contribs_def map_fst_contribs assms)

lemma symbolic_env_simps [simp]:
  "ke_A (symbolic_env E) = ke_A E" "ke_B (symbolic_env E) = ke_B E"
  "ke_allow (symbolic_env E) = ke_allow E" "ke_hashf (symbolic_env E) = ke_hashf E"
  by (simp_all add: symbolic_env_def)

lemma plan_pattern:
  assumes "list_all2 (plan_ok E1) pl cols" "list_all2 (plan_ok E2) pl cols'"
    and "ke_A E1 = ke_A E2" "ke_B E1 = ke_B E2" "ke_allow E1 = ke_allow E2"
  shows "list_all2 (\<lambda>jc jc'. fst jc = fst jc' \<and> map fst (snd jc) = map fst (snd jc')) cols cols'"
proof (rule list_all2_all_nthI)
  show len: "length cols = length cols'"
    using assms(1,2) by (simp add: list_all2_lengthD [symmetric])
  fix n assume n: "n < length cols"
  with assms(1) have n': "n < length pl" by (simp add: list_all2_lengthD)
  obtain j R ps where pl: "pl ! n = (j, R, ps)" by (cases "pl ! n") auto
  from list_all2_nthD [OF assms(1) n'] pl
  have 1: "fst (cols ! n) = j" "column_ok (ke_add E1) R (task_contribs E1 j ps) (snd (cols ! n))"
    by (simp_all add: plan_ok_def)
  from list_all2_nthD [OF assms(2) n'] pl
  have 2: "fst (cols' ! n) = j" "column_ok (ke_add E2) R (task_contribs E2 j ps) (snd (cols' ! n))"
    by (simp_all add: plan_ok_def)
  have "fst ` set (task_contribs E1 j ps) = fst ` set (task_contribs E2 j ps)"
    using arg_cong [OF task_contribs_rows [OF assms(3-5), of j ps], of set] by simp
  from column_ok_same_keys [OF 1(2) 2(2) this] 1(1) 2(1)
  show "fst (cols ! n) = fst (cols' ! n) \<and> map fst (snd (cols ! n)) = map fst (snd (cols' ! n))"
    by simp
qed

lemma column_of_pattern:
  assumes "list_all2 (\<lambda>jc jc'. fst jc = fst jc' \<and> map fst (snd jc) = map fst (snd jc')) cols cols'"
  shows "map fst (column_of cols j) = map fst (column_of cols' j)"
  using assms
proof (induction cols cols' rule: list_all2_induct)
  case Nil
  show ?case by (simp add: column_of_def)
next
  case (Cons x xs y ys)
  then show ?case by (cases x; cases y) (auto simp: column_of_def)
qed

lemma column_of_cases:
  "column_of cols j = [] \<or> (j, column_of cols j) \<in> set cols"
  by (auto simp: column_of_def split: option.splits dest: map_of_SomeD)

lemma plan_ok_in_set:
  assumes "list_all2 (plan_ok E) pl cols" "(j, c) \<in> set cols"
  shows "\<exists>R ps. (j, R, ps) \<in> set pl \<and> column_ok (ke_add E) R (task_contribs E j ps) c"
proof -
  from assms(2) obtain n where n: "n < length cols" "cols ! n = (j, c)"
    by (auto simp: in_set_conv_nth)
  with assms(1) have n': "n < length pl" by (simp add: list_all2_lengthD)
  obtain j' R ps where pl: "pl ! n = (j', R, ps)" by (cases "pl ! n") auto
  from list_all2_nthD [OF assms(1) n'] pl n(2)
  have "j' = j" "column_ok (ke_add E) R (task_contribs E j ps) c" by (auto simp: plan_ok_def)
  moreover from n' pl have "(j', R, ps) \<in> set pl" by (metis nth_mem)
  ultimately show ?thesis by blast
qed

lemma column_of_sorted:
  assumes "list_all2 (plan_ok E) pl cols"
  shows "sorted_wrt (<) (map fst (column_of cols j))"
proof (cases "column_of cols j = []")
  case True
  then show ?thesis by simp
next
  case False
  with column_of_cases [of cols j] have "(j, column_of cols j) \<in> set cols" by simp
  from plan_ok_in_set [OF assms this] show ?thesis by (auto simp: column_ok_def)
qed

lemma map_pair_zip: "map (\<lambda>q. (f q, g q)) xs = zip (map f xs) (map g xs)"
  by (induction xs) simp_all

lemma numeric_columns:
  assumes num: "saxpy3_numeric_template E TL nfine C = Some C'"
    and cols: "saxpy3_columns E TL nfine = Some cols"
    and Cp: "csc_p C = cumsum_from 0 (map (\<lambda>j. length (column_of cols j)) [0..<csc_vdim C])"
  shows "csc_vdim C' = csc_vdim C \<and> csc_vlen C' = csc_vlen C \<and> csc_p C' = csc_p C
     \<and> pointers_ok C'
     \<and> (\<forall>j < csc_vdim C. col_entries C' j = column_of cols j)"
proof -
  let ?n = "csc_vdim C"
  let ?lens = "map (\<lambda>j. length (column_of cols j)) [0..<?n]"
  let ?xi = "map (\<lambda>j. map fst (column_of cols j)) [0..<?n]"
  let ?xx = "map (\<lambda>j. map snd (column_of cols j)) [0..<?n]"
  let ?cnz = "csc_p C ! ?n"
  have li: "map length ?xi = ?lens" and lx: "map length ?xx = ?lens" by (simp_all add: comp_def)
  have p: "csc_p C ! k = sum_list (take k ?lens)" if "k \<le> ?n" for k
    using that nth_cumsum_from [of k ?lens 0] by (simp add: Cp)
  have cnz: "?cnz = sum_list ?lens" using p [of ?n] by simp
  have oi: "sum_list (map length (take k ?xi)) = csc_p C ! k" if "k \<le> ?n" for k
    using p [OF that] li by (metis take_map)
  have ox: "sum_list (map length (take k ?xx)) = csc_p C ! k" if "k \<le> ?n" for k
    using p [OF that] lx by (metis take_map)
  have Ci: "fold (\<lambda>j. write_from (csc_p C ! j) (map fst (column_of cols j))) [0..<?n]
              (map (ke_Hi0 E) [0..<?cnz]) = concat ?xi"
  proof (rule fold_write_columns)
    show "length (map (ke_Hi0 E) [0..<?cnz]) = sum_list (map length ?xi)"
      using cnz by (simp add: comp_def)
    show "length ?xi = ?n" by simp
    fix j assume "j < ?n"
    then show "write_from (csc_p C ! j) (map fst (column_of cols j))
        = write_from (sum_list (map length (take j ?xi))) (?xi ! j)"
      using oi [of j] by simp
  qed
  have Cx: "fold (\<lambda>j. write_from (csc_p C ! j) (map snd (column_of cols j))) [0..<?n]
              (map (ke_Hx0 E) [0..<?cnz]) = concat ?xx"
  proof (rule fold_write_columns)
    show "length (map (ke_Hx0 E) [0..<?cnz]) = sum_list (map length ?xx)"
      using cnz by (simp add: comp_def)
    show "length ?xx = ?n" by simp
    fix j assume "j < ?n"
    then show "write_from (csc_p C ! j) (map snd (column_of cols j))
        = write_from (sum_list (map length (take j ?xx))) (?xx ! j)"
      using ox [of j] by simp
  qed
  from num cols have C': "C' = C\<lparr>csc_i := concat ?xi, csc_x := concat ?xx\<rparr>"
    by (simp add: saxpy3_numeric_template_def Let_def Ci Cx)
  have lenC: "length (concat ?xi) = ?cnz" "length (concat ?xx) = ?cnz"
    using cnz by (simp_all add: length_concat comp_def)
  have mono: "csc_p C ! k \<le> csc_p C ! Suc k" if "k < ?n" for k
  proof -
    have "take (Suc k) ?lens = take k ?lens @ [?lens ! k]"
      using that by (intro take_Suc_conv_app_nth) simp
    then show ?thesis using p [of k] p [of "Suc k"] that by simp
  qed
  have ptr: "pointers_ok C'"
    unfolding pointers_ok_def C' using mono lenC p [of 0] by (simp add: Cp)
  have ent: "col_entries C' j = column_of cols j" if j: "j < ?n" for j
  proof -
    let ?a = "csc_p C ! j"
    let ?l = "length (column_of cols j)"
    have tk: "take (Suc j) ?lens = take j ?lens @ [?lens ! j]"
      using j by (intro take_Suc_conv_app_nth) simp
    have nxt: "csc_p C ! Suc j = ?a + ?l" using p [of j] p [of "Suc j"] j tk by simp
    have si: "map (nth (concat ?xi)) [?a..<?a + ?l] = map fst (column_of cols j)"
      using concat_slice [of j ?xi] j oi [of j] by simp
    have sx: "map (nth (concat ?xx)) [?a..<?a + ?l] = map snd (column_of cols j)"
      using concat_slice [of j ?xx] j ox [of j] by simp
    have "col_entries C' j = map (\<lambda>q. (concat ?xi ! q, concat ?xx ! q)) [?a..<?a + ?l]"
      by (simp add: col_entries_def col_positions_def entry_at_def C' nxt)
    also have "\<dots> = zip (map (nth (concat ?xi)) [?a..<?a + ?l]) (map (nth (concat ?xx)) [?a..<?a + ?l])"
      by (rule map_pair_zip)
    also have "\<dots> = column_of cols j" unfolding si sx by (rule zip_map_fst_snd)
    finally show ?thesis .
  qed
  show ?thesis using ptr ent by (simp add: C')
qed

lemma kernel_structure:
  assumes sym: "GB_AxB_saxpy3_symbolic E TL nfine C = Some C1"
    and num: "saxpy3_numeric_template E' TL nfine C1 = Some C2"
    and same: "ke_A E' = ke_A E" "ke_B E' = ke_B E" "ke_allow E' = ke_allow E"
  shows "pointers_ok C2 \<and> cols_sorted C2 \<and> csc_vdim C2 = csc_vdim C \<and> csc_vlen C2 = csc_vlen C"
proof -
  from sym obtain cols' where cols': "saxpy3_columns (symbolic_env E) TL nfine = Some cols'"
    and C1: "C1 = C\<lparr>csc_p := cumsum_from 0
                              (map (\<lambda>j. length (column_of cols' j)) [0..<csc_vdim C])\<rparr>"
    by (auto simp: GB_AxB_saxpy3_symbolic_def)
  from num obtain cols where cols: "saxpy3_columns E' TL nfine = Some cols"
    by (auto simp: saxpy3_numeric_template_def)
  let ?pl = "column_plan (csc_vlen (ke_A E)) (ke_B E) TL nfine"
  have ok: "list_all2 (plan_ok E') ?pl cols" using saxpy3_columns_spec [OF cols] by (simp add: same)
  have ok': "list_all2 (plan_ok (symbolic_env E)) ?pl cols'"
    using saxpy3_columns_spec [OF cols'] by simp
  have "list_all2 (\<lambda>jc jc'. fst jc = fst jc' \<and> map fst (snd jc) = map fst (snd jc')) cols cols'"
    by (rule plan_pattern [OF ok ok']) (simp_all add: same)
  from arg_cong [OF column_of_pattern [OF this], of length]
  have len: "length (column_of cols' j) = length (column_of cols j)" for j by simp
  have Cp: "csc_p C1 = cumsum_from 0 (map (\<lambda>j. length (column_of cols j)) [0..<csc_vdim C1])"
    by (simp add: C1 len)
  from numeric_columns [OF num cols Cp]
  have r: "csc_vdim C2 = csc_vdim C1" "csc_vlen C2 = csc_vlen C1" "pointers_ok C2"
    "\<And>j. j < csc_vdim C1 \<Longrightarrow> col_entries C2 j = column_of cols j"
    by auto
  have "cols_sorted C2"
    unfolding cols_sorted_def using r(1,4) column_of_sorted [OF ok] by simp
  with r show ?thesis by (simp add: C1)
qed





lemma ex_flops_status: "flop_status (saxpy3_callees E alloc packed (ex_flops A B) builtin worker) = {GrB_SUCCESS}"
  by (auto simp: flop_status_def saxpy3_callees_def ex_flops_def)

lemma saxpy3_callees_status:
  "fst (c_GB_new (saxpy3_callees E alloc packed fc builtin worker)) = GrB_SUCCESS"
  "prune_status (saxpy3_callees E alloc packed fc builtin worker) = {GrB_SUCCESS}"
  "c_mkl (saxpy3_callees E alloc packed fc builtin worker) = None"
  by (auto simp: prune_status_def saxpy3_callees_def)



lemma saxpy3_kernels_success:
  assumes "saxpy3_kernels K args C s = (GrB_SUCCESS, s')"
  shows "\<exists>Cn. saxpy3_numeric K args (c_symbolic K args C) = (GrB_SUCCESS, Cn)
     \<and> fst (c_prune K Cn) = GrB_SUCCESS \<and> Chandle s' = Some (snd (c_prune K Cn))"
proof -
  obtain info Cn where n: "saxpy3_numeric K args (c_symbolic K args C) = (info, Cn)"
    by (cases "saxpy3_numeric K args (c_symbolic K args C)") auto
  obtain pinfo Cp where p: "c_prune K Cn = (pinfo, Cp)" by (cases "c_prune K Cn") auto
  from assms have "info = GrB_SUCCESS \<and> pinfo = GrB_SUCCESS \<and> Chandle s' = Some Cp"
    by (auto simp: saxpy3_kernels_def n p split: if_splits)
  with n p show ?thesis by simp
qed

lemma saxpy3_hash_success:
  assumes "saxpy3_hash K P d ms ntasks nfine nthreads TL C s = (GrB_SUCCESS, s')"
  shows "\<exists>args s1. saxpy3_kernels K args C s1 = (GrB_SUCCESS, s')"
proof -
  obtain a b c where tot: "hash_sizes_total P TL ntasks = (a, b, c)"
    by (cases "hash_sizes_total P TL ntasks") auto
  let ?s1 = "(GB_FREE_INITIAL_WORK s)
                     \<lparr>Hi_all := (a > 0 \<and> c_alloc K W_Hi_all),
                      Hf_all := (b > 0 \<and> c_alloc K W_Hf_all),
                      Hx_all := (c > 0 \<and> c_alloc K W_Hx_all)\<rparr>"
  show ?thesis
  proof (cases "(a > 0 \<and> \<not> Hi_all ?s1) \<or> (b > 0 \<and> \<not> Hf_all ?s1) \<or> (c > 0 \<and> \<not> Hx_all ?s1)")
    case True
    then have "saxpy3_hash K P d ms ntasks nfine nthreads TL C s = (GrB_OUT_OF_MEMORY, GB_FREE_ALL ?s1)"
      unfolding saxpy3_hash_def tot by (simp add: Let_def)
    with assms show ?thesis by simp
  next
    case False
    then obtain args where "saxpy3_hash K P d ms ntasks nfine nthreads TL C s = saxpy3_kernels K args C ?s1"
      unfolding saxpy3_hash_def tot by (simp add: Let_def)
    with assms show ?thesis by auto
  qed
qed

lemma saxpy3_tasks_success:
  assumes "saxpy3_tasks K P d ms C s = Some (GrB_SUCCESS, s')"
  shows "\<exists>args s1. saxpy3_kernels K args C s1 = (GrB_SUCCESS, s')"
proof -
  let ?P = "partition_params P (md_Bflops d) (md_total_flops d) (md_AxB_method d)"
  obtain nc nf mb where cnt: "count_tasks ?P = (nc, nf, mb)"
    by (cases "count_tasks ?P") auto
  let ?s1 = "s\<lparr>Coarse_initial := (p_ntasks_initial ?P > 1),
                              TaskList := c_alloc K W_TaskList,
                              Coarse_Work := c_alloc K W_Coarse_Work,
                              Fine_slice := (mb > 0 \<and> c_alloc K W_Fine_slice),
                              Bflops2 := (mb > 0 \<and> c_alloc K W_Bflops2)\<rparr>"
  show ?thesis
  proof (cases "p_ntasks_initial ?P > 1 \<and> \<not> c_alloc K W_Coarse_initial")
    case True
    have "saxpy3_tasks K P d ms C s = Some (GrB_OUT_OF_MEMORY, GB_FREE_ALL s)"
      unfolding saxpy3_tasks_def Let_def by (subst if_P [OF True]) (rule refl)
    with assms show ?thesis by simp
  next
    case nopslice: False
    show ?thesis
    proof (cases "\<not> TaskList ?s1 \<or> \<not> Coarse_Work ?s1 \<or> (mb > 0 \<and> (\<not> Fine_slice ?s1 \<or> \<not> Bflops2 ?s1))")
      case True
      then have "saxpy3_tasks K P d ms C s = Some (GrB_OUT_OF_MEMORY, GB_FREE_ALL ?s1)"
        unfolding saxpy3_tasks_def Let_def
        by (subst if_not_P [OF nopslice], unfold cnt prod.case, subst if_P [OF True]) (rule refl)
      with assms show ?thesis by simp
    next
      case False
      then have "saxpy3_tasks K P d ms C s =
          (case create_tasks ?P (c_Bflops2_init K) of None \<Rightarrow> None
           | Some TL \<Rightarrow> Some (saxpy3_hash K ?P d ms (nc + nf) nf
               (GB_nthreads (p_helpers ?P) (real_of_int (md_total_flops d)) (p_chunk ?P) (p_nthreads_max ?P))
               TL C ?s1))"
        unfolding saxpy3_tasks_def Let_def
        by (subst if_not_P [OF nopslice], unfold cnt prod.case, subst if_not_P [OF False]) (rule refl)
      with assms obtain TL nth where "saxpy3_hash K ?P d ms (nc + nf) nf nth TL C ?s1 = (GrB_SUCCESS, s')"
        by (auto split: option.splits)
      from saxpy3_hash_success [OF this] show ?thesis .
    qed
  qed
qed

lemma GB_AxB_saxpy3_success:
  assumes "GB_AxB_saxpy3 K P M mc ms hint = Some (GrB_SUCCESS, st)" "c_mkl K = None"
  shows "\<exists>args Cn. fst (c_GB_new K) = GrB_SUCCESS
     \<and> saxpy3_numeric K args (c_symbolic K args (snd (c_GB_new K))) = (GrB_SUCCESS, Cn)
     \<and> fst (c_prune K Cn) = GrB_SUCCESS \<and> Chandle st = Some (snd (c_prune K Cn))"
proof -
  from assms have m: "saxpy3_main K P M mc ms hint = Some (GrB_SUCCESS, st)"
    by (simp add: GB_AxB_saxpy3_def)
  obtain ninfo C where new: "c_GB_new K = (ninfo, C)" by (cases "c_GB_new K") auto
  obtain finfo Mwork Bflops where fl: "c_flopcount K M mc (\<lambda>kk. 0) = (finfo, Mwork, Bflops)"
    by (cases "c_flopcount K M mc (\<lambda>kk. 0)") auto
  from m new have nok: "ninfo = GrB_SUCCESS" by (auto simp: saxpy3_main_def split: if_splits)
  from m new nok fl have fok: "finfo = GrB_SUCCESS"
    by (auto simp: saxpy3_main_def Let_def split: if_splits)
  let ?s = "saxpy3_init\<lparr>Chandle := Some C\<rparr>"
  show ?thesis
  proof (cases "saxpy3_mask_decision (c_packed K) (c_flopcount K) M mc hint Mwork Bflops
                      (p_cvlen P) (p_bvdim P) (p_bnvec P)")
    case (Inl info2)
    with m new nok fl fok mask_decision_status [OF Inl] show ?thesis
      by (auto simp: saxpy3_main_def)
  next
    case (Inr d)
    with m new nok fl fok have "saxpy3_tasks K P d ms C ?s = Some (GrB_SUCCESS, st)"
      by (simp add: saxpy3_main_def)
    from saxpy3_tasks_success [OF this] obtain args s1 where
      "saxpy3_kernels K args C s1 = (GrB_SUCCESS, st)" by blast
    from saxpy3_kernels_success [OF this] new nok show ?thesis by auto
  qed
qed

text \<open>
  Claim C6. When \<^verbatim>\<open>GB_AxB_saxpy3\<close> returns success with the kernels of the model (the
  numeric phase by the generic method or by a worker of the switch factory, enabled or
  not), the pointers of \<open>C\<close> are cumulative (they start at 0, never decrease and end at
  the number of entries) and the row indices of every vector of \<open>C\<close> ascend, for every
  task list and every size of the tables.
\<close>

theorem saxpy3_output_sorted:
  assumes "GB_AxB_saxpy3 (saxpy3_callees E alloc packed fc builtin worker) P M Mask_comp
             Mask_struct hint = Some (GrB_SUCCESS, st)"
    and "Chandle st = Some (Some C)"
    and "worker = None \<or> (\<exists>GB_DISABLE W. worker = Some (saxpy3_worker GB_DISABLE W)
           \<and> ke_A W = ke_A E \<and> ke_B W = ke_B E)"
  shows "pointers_ok C \<and> cols_sorted C \<and> csc_vlen C = csc_vlen (ke_A E)
     \<and> csc_vdim C = csc_vdim (ke_B E)"
proof -
  let ?K = "saxpy3_callees E alloc packed fc builtin worker"
  from GB_AxB_saxpy3_success [OF assms(1) saxpy3_callees_status(3)]
  obtain args Cn where
    n: "saxpy3_numeric ?K args (c_symbolic ?K args (snd (c_GB_new ?K))) = (GrB_SUCCESS, Cn)"
    and c: "Chandle st = Some (snd (c_prune ?K Cn))"
    by blast
  from c assms(2) have Cn: "Cn = Some C" by (simp add: saxpy3_callees_def)
  let ?C1 = "saxpy3_symbolic_call E args (Some (GB_new_header E))"
  have sy: "c_symbolic ?K args (snd (c_GB_new ?K)) = ?C1" by (simp add: saxpy3_callees_def)
  from assms(3) consider (none) "worker = None"
    | (w) d W where "worker = Some (saxpy3_worker d W)" "ke_A W = ke_A E" "ke_B W = ke_B E"
    by blast
  then have "\<exists>X. saxpy3_template_call X args ?C1 = Some C \<and> ke_A X = ke_A E \<and> ke_B X = ke_B E"
  proof cases
    case none
    then have "saxpy3_numeric ?K args ?C1 = GB_AxB_saxpy3_generic E args ?C1"
      by (simp add: saxpy3_numeric_def saxpy3_callees_def)
    with n have "saxpy3_template_call E args ?C1 = Some C"
      unfolding sy by (simp add: GB_AxB_saxpy3_generic_def Cn)
    then show ?thesis by blast
  next
    case w
    show ?thesis
    proof (cases "builtin \<and> \<not> d")
      case True
      with n have "saxpy3_template_call W args ?C1 = Some C"
        unfolding sy by (simp add: saxpy3_numeric_def saxpy3_callees_def w(1) saxpy3_worker_def Cn)
      with w(2,3) show ?thesis by blast
    next
      case False
      then have "saxpy3_numeric ?K args ?C1 = GB_AxB_saxpy3_generic E args ?C1"
        by (auto simp: saxpy3_numeric_def saxpy3_callees_def w(1) saxpy3_worker_def)
      with n have "saxpy3_template_call E args ?C1 = Some C"
        unfolding sy by (simp add: GB_AxB_saxpy3_generic_def Cn)
      then show ?thesis by blast
    qed
  qed
  then obtain X where X: "saxpy3_template_call X args ?C1 = Some C" "ke_A X = ke_A E"
    "ke_B X = ke_B E" by blast
  let ?TL = "ka_TaskList args" and ?nf = "nat (ka_nfine args)"
  from X(1) obtain C1 where
    sym: "GB_AxB_saxpy3_symbolic (args_env E args) ?TL ?nf (GB_new_header E) = Some C1"
    and num: "saxpy3_numeric_template (args_env X args) ?TL ?nf C1 = Some C"
    by (auto simp: saxpy3_template_call_def saxpy3_symbolic_call_def split: bind_splits)
  have "pointers_ok C \<and> cols_sorted C \<and> csc_vdim C = csc_vdim (GB_new_header E)
      \<and> csc_vlen C = csc_vlen (GB_new_header E)"
    by (rule kernel_structure [OF sym num]) (simp_all add: args_env_def X)
  then show ?thesis by (simp add: GB_new_header_def)
qed

lemma ex10_run:
  "GB_AxB_saxpy3 (saxpy3_callees ex_env10 (\<lambda>w. True) (\<lambda>m. False) (ex_flops ex_A10 ex_B1) False None)
      (saxpy3_params ex_helpers ex_A10 ex_B1 65536 4) None False False GxB_AxB_HASH
   = Some (GrB_SUCCESS, saxpy3_init\<lparr>Chandle := Some (Some ex_C10)\<rparr>)"
  by code_simp

lemma ex10_items:
  "hash_items 8 1 (the (fold (hash_step (\<lambda>i. i * 257) (+) 8 1)
      (task_contribs ex_env10 0 (col_positions ex_B1 0)) (Some ((\<lambda>s. 0), (\<lambda>s. 0), (\<lambda>s. 0)))))
   = [(9, 10), (2, 5)]"
  by code_simp

text \<open>
  Claim C6 on the second pair, with the Hash method: the table holds the rows of the
  vector in the order 9, 2, and \<open>C\<close> has them in the order 2, 9 behind the pointers
  0, 2.
\<close>

theorem saxpy3_output_sorted_witness:
  "GB_AxB_saxpy3 (saxpy3_callees ex_env10 (\<lambda>w. True) (\<lambda>m. False) (ex_flops ex_A10 ex_B1) False None)
      (saxpy3_params ex_helpers ex_A10 ex_B1 65536 4) None False False GxB_AxB_HASH
     = Some (GrB_SUCCESS, saxpy3_init\<lparr>Chandle := Some (Some ex_C10)\<rparr>)
   \<and> hash_items 8 1 (the (fold (hash_step (\<lambda>i. i * 257) (+) 8 1)
        (task_contribs ex_env10 0 (col_positions ex_B1 0)) (Some ((\<lambda>s. 0), (\<lambda>s. 0), (\<lambda>s. 0)))))
     = [(9, 10), (2, 5)]
   \<and> col_entries ex_C10 0 = [(2, 5), (9, 10)]
   \<and> sorted_wrt (<) (map fst (col_entries ex_C10 0))
   \<and> csc_p ex_C10 ! 0 = 0 \<and> csc_p ex_C10 ! 1 = length (csc_i ex_C10)"
proof -
  have c: "Chandle (saxpy3_init\<lparr>Chandle := Some (Some ex_C10)\<rparr>) = Some (Some ex_C10)" by simp
  have "pointers_ok ex_C10 \<and> cols_sorted ex_C10 \<and> csc_vlen ex_C10 = csc_vlen (ke_A ex_env10)
     \<and> csc_vdim ex_C10 = csc_vdim (ke_B ex_env10)"
    by (rule saxpy3_output_sorted [OF ex10_run c]) simp
  then have p: "pointers_ok ex_C10" and s: "cols_sorted ex_C10" by simp_all
  have d: "csc_vdim ex_C10 = 1" by (simp add: ex_C10_def)
  from s have 1: "sorted_wrt (<) (map fst (col_entries ex_C10 0))"
    unfolding cols_sorted_def d by simp
  from p have 2: "csc_p ex_C10 ! 0 = 0 \<and> csc_p ex_C10 ! 1 = length (csc_i ex_C10)"
    unfolding pointers_ok_def d by simp
  have 3: "col_entries ex_C10 0 = [(2, 5), (9, 10)]" by code_simp
  from ex10_run ex10_items 1 2 3 show ?thesis by blast
qed

end
